theory Spec2Isabelle
  imports Main
begin

section \<open>duckpy: a duckyscript interpreter (src/duckpy/duck.py)\<close>

text \<open>
  The module reads a duckyscript file line by line, turns every non-blank line into a
  \<open>DuckyCommand\<close> object and executes the commands in order. This theory embeds
  the key and alias resolver, the line translator \<open>DuckyCommand._to_python\<close>,
  \<open>DuckyCommand.execute\<close> with \<open>_cmd_repeat\<close>, and \<open>DuckyScript.load\<close> and
  \<open>DuckyScript.run\<close>.

  Conventions of the embedding.
  \<^item> A Python \<open>str\<close> is a \<open>string\<close>. Characters are read as ASCII: \<open>str.lower\<close>,
    \<open>str.strip\<close> and \<open>int\<close> are modelled on the ASCII letters, white space and
    digits (Python also knows the Unicode ones).
  \<^item> An exception is a value of \<open>error\<close>; a function that can raise returns
    \<open>error + 'a\<close>, and where the state reached at the raise matters,
    \<open>error \<times> state + state\<close>.
  \<^item> \<open>pyautogui.KEYBOARD_KEYS\<close>, \<open>sys.platform\<close> and the range of \<open>time.sleep\<close>
    are not part of the module; they are the fields of the parameter \<open>env\<close>.
  \<^item> Calls of \<open>logger\<close> are not modelled, but the arguments Python evaluates for them
    are: an argument that raises makes the translation raise.
\<close>

subsection \<open>Exceptions and the host environment\<close>

datatype error = ValueError | IndexError | TypeError | AttributeError | OverflowError

text \<open>The host: \<open>pyautogui.KEYBOARD_KEYS\<close>, \<open>sys.platform\<close>, and the largest number
  of milliseconds \<open>ms\<close> for which \<open>time.sleep(ms / 1000)\<close> can still convert its
  argument (9223372036854 where the time type counts nanoseconds in 64 bits).\<close>

record env =
  KEYBOARD_KEYS :: "string list"
  platform :: string
  sleep_limit :: int

subsection \<open>String operations of Python used by the module\<close>

text \<open>\<open>str.lower\<close> on the ASCII letters.\<close>

definition lower_char :: "char \<Rightarrow> char" where
  "lower_char c =
     (case map_of (zip ''ABCDEFGHIJKLMNOPQRSTUVWXYZ'' ''abcdefghijklmnopqrstuvwxyz'') c of
        Some l \<Rightarrow> l
      | None \<Rightarrow> c)"

definition lower :: "string \<Rightarrow> string" where
  "lower s = map lower_char s"

text \<open>The ASCII characters for which \<open>str.isspace\<close> holds; \<open>str.strip()\<close> removes
  them at both ends.\<close>

definition is_space :: "char \<Rightarrow> bool" where
  "is_space c \<longleftrightarrow>
     c \<in> set [CHR '' '', CHR 0x09, CHR 0x0A, CHR 0x0B, CHR 0x0C, CHR 0x0D,
              CHR 0x1C, CHR 0x1D, CHR 0x1E, CHR 0x1F]"

definition strip :: "string \<Rightarrow> string" where
  "strip s = rev (dropWhile is_space (rev (dropWhile is_space s)))"

text \<open>\<open>s.split(sep)\<close> for a one-character separator: the loop keeps the piece read so
  far (reversed) and closes it at every separator. Empty pieces are kept.\<close>

fun split_acc :: "char \<Rightarrow> string \<Rightarrow> string \<Rightarrow> string list" where
  "split_acc sep cur [] = [rev cur]"
| "split_acc sep cur (x # xs) =
     (if x = sep then rev cur # split_acc sep [] xs else split_acc sep (x # cur) xs)"

definition py_split :: "char \<Rightarrow> string \<Rightarrow> string list" where
  "py_split sep s = split_acc sep [] s"

text \<open>\<open>s.split(' ', maxsplit=1)\<close>: at most one cut, at the first space.\<close>

definition split_maxsplit1 :: "string \<Rightarrow> string list" where
  "split_maxsplit1 s =
     (if CHR '' '' \<in> set s
      then [takeWhile (\<lambda>c. c \<noteq> CHR '' '') s, tl (dropWhile (\<lambda>c. c \<noteq> CHR '' '') s)]
      else [s])"

text \<open>\<open>int(s)\<close> on a string: white space around the literal is dropped, one sign is
  allowed, and the digits may be grouped by single underscores. \<open>None\<close> stands for the
  \<open>ValueError\<close> of a malformed literal. On an ASCII string \<open>int\<close> skips fewer
  characters than \<open>str.strip\<close>: the space and the characters 0x09 to 0x0D only.\<close>

definition is_int_space :: "char \<Rightarrow> bool" where
  "is_int_space c \<longleftrightarrow>
     c \<in> set [CHR '' '', CHR 0x09, CHR 0x0A, CHR 0x0B, CHR 0x0C, CHR 0x0D]"

definition int_strip :: "string \<Rightarrow> string" where
  "int_strip s = rev (dropWhile is_int_space (rev (dropWhile is_int_space s)))"

definition digit_val :: "char \<Rightarrow> nat option" where
  "digit_val c = map_of (zip ''0123456789'' [0 ..< 10]) c"

definition nat_literal :: "string \<Rightarrow> nat option" where
  "nat_literal s =
     (let groups = py_split CHR ''_'' s in
      if list_all (\<lambda>g. g \<noteq> [] \<and> list_all (\<lambda>c. digit_val c \<noteq> None) g) groups
      then Some (foldl (\<lambda>acc c. 10 * acc + the (digit_val c)) 0 (concat groups))
      else None)"

definition py_int :: "string \<Rightarrow> int option" where
  "py_int s =
     (case int_strip s of
        [] \<Rightarrow> None
      | c # r \<Rightarrow>
          if c = CHR ''-'' then map_option (\<lambda>n. - int n) (nat_literal r)
          else if c = CHR ''+'' then map_option int (nat_literal r)
          else map_option int (nat_literal (c # r)))"

text \<open>Running a function that can raise over a list stops at the first exception, as the
  generator expression inside \<open>tuple(...)\<close> does.\<close>

fun collect :: "('e + 'a) list \<Rightarrow> 'e + 'a list" where
  "collect [] = Inr []"
| "collect (r # rs) =
     (case r of
        Inl e \<Rightarrow> Inl e
      | Inr y \<Rightarrow> (case collect rs of Inl e \<Rightarrow> Inl e | Inr ys \<Rightarrow> Inr (y # ys)))"

text \<open>\<open>t[0]\<close> on a tuple.\<close>

definition item0 :: "'a list \<Rightarrow> error + 'a" where
  "item0 t = (case t of [] \<Rightarrow> Inl IndexError | x # _ \<Rightarrow> Inr x)"

subsection \<open>Constants of the module\<close>

definition COMMANDS :: "string list" where
  "COMMANDS = [''REM'', ''DEFAULT_DELAY'', ''DELAY'', ''STRING'', ''REPEAT'']"

definition ALIAS :: "(string \<times> string) list" where
  "ALIAS =
     [(''DEFAULTDELAY'', ''DEFAULT_DELAY''),
      (''WINDOWS'', ''GUI''),
      (''MENU'', ''APP''),
      (''CONTROL'', ''CTRL''),
      (''DOWNARROW'', ''DOWN''),
      (''UPARROW'', ''UP''),
      (''LEFTARROW'', ''LEFT''),
      (''RIGHTARROW'', ''RIGHT''),
      (''BREAK'', ''PAUSE''),
      (''ESC'', ''ESCAPE'')]"

definition TRANSLATE_KEYS :: "env \<Rightarrow> (string \<times> string) list" where
  "TRANSLATE_KEYS e =
     [(''GUI'', if platform e = ''darwin'' then ''command'' else ''winleft''),
      (''APP'', ''apps'')]"

subsection \<open>Key and alias resolver\<close>

definition is_valid_alias :: "string \<Rightarrow> bool" where
  "is_valid_alias dcmd \<longleftrightarrow> dcmd \<in> set (map fst ALIAS)"

text \<open>\<open>get_alias_target\<close> raises \<open>ValueError\<close> on a key that is no alias. Behind
  that check \<open>ALIAS.get\<close> always finds the key (lemma \<open>get_alias_target_valid\<close>);
  the branch for a missing key is there to make the function total.\<close>

definition get_alias_target :: "string \<Rightarrow> error + string" where
  "get_alias_target dalias =
     (if \<not> is_valid_alias dalias then Inl ValueError
      else (case map_of ALIAS dalias of None \<Rightarrow> Inl ValueError | Some t \<Rightarrow> Inr t))"

text \<open>\<open>translate_key\<close>: a key with a \<open>-\<close> is split and every part is translated by a
  recursive call, of which the first item is kept; any other key is resolved as an alias,
  looked up in \<open>TRANSLATE_KEYS\<close> or lowered, and checked against \<open>KEYBOARD_KEYS\<close>.
  The unresolved key is \<open>None\<close>.\<close>

function translate_key :: "env \<Rightarrow> string \<Rightarrow> error + string option list" where
  "translate_key e dkey =
     (if CHR ''-'' \<in> set dkey
      then collect (map (\<lambda>key. case translate_key e key of
                                   Inl err \<Rightarrow> Inl err
                                 | Inr t \<Rightarrow> item0 t)
                        (py_split CHR ''-'' dkey))
      else (case (if is_valid_alias dkey then get_alias_target dkey else Inr dkey) of
              Inl err \<Rightarrow> Inl err
            | Inr dkey' \<Rightarrow>
                (let pykey = lower (case map_of (TRANSLATE_KEYS e) dkey' of
                                      Some v \<Rightarrow> v
                                    | None \<Rightarrow> dkey')
                 in if pykey \<notin> set (KEYBOARD_KEYS e) then Inr [None] else Inr [Some pykey])))"
  by pat_completeness auto

termination
proof (relation "measure (\<lambda>(e, dkey). length dkey)")
  show "wf (measure (\<lambda>(e, dkey). length dkey))"
    by simp
next
  fix e :: env and dkey key :: string
  assume dash: "CHR ''-'' \<in> set dkey" and key: "key \<in> set (py_split CHR ''-'' dkey)"
  have bound: "\<And>cur p. p \<in> set (split_acc CHR ''-'' cur s) \<Longrightarrow>
      length p \<le> length cur + length s \<and>
      (CHR ''-'' \<in> set s \<longrightarrow> length p < length cur + length s)" for s
  proof (induction s)
    case Nil
    then show ?case by simp
  next
    case (Cons x xs)
    show ?case
    proof (cases "x = CHR ''-''")
      case True
      with Cons.prems have "p = rev cur \<or> p \<in> set (split_acc CHR ''-'' [] xs)"
        by simp
      then show ?thesis
      proof
        assume "p = rev cur"
        then show ?thesis by simp
      next
        assume "p \<in> set (split_acc CHR ''-'' [] xs)"
        from Cons.IH [OF this] show ?thesis by simp
      qed
    next
      case False
      with Cons.prems have "p \<in> set (split_acc CHR ''-'' (x # cur) xs)"
        by simp
      from Cons.IH [OF this] False show ?thesis by simp
    qed
  qed
  from bound [of key "[]" dkey] key dash have "length key < length dkey"
    by (simp add: py_split_def)
  then show "((e, key), (e, dkey)) \<in> measure (\<lambda>(e, dkey). length dkey)"
    by simp
qed

definition is_valid_cmd :: "env \<Rightarrow> string \<Rightarrow> error + bool" where
  "is_valid_cmd e dcmd =
     (case translate_key e dcmd of
        Inl err \<Rightarrow> Inl err
      | Inr t \<Rightarrow> if None \<in> set t then Inr (dcmd \<in> set COMMANDS) else Inr True)"

subsection \<open>Objects and state\<close>

text \<open>
  \<open>DuckyCommand\<close> objects live in a heap, addressed by their position; a \<open>REPEAT\<close>
  command holds a reference to the object it repeats, and \<open>_cmd_repeat\<close> writes that
  object's \<open>_skip_delay\<close>. The object a \<open>REPEAT\<close> refers to is either a command or,
  after the \<open>IndexError\<close> handler, the function object \<open>_cmd_rem\<close>.
\<close>

type_synonym addr = nat

datatype target = RemFunction | Cmd addr

text \<open>\<open>python_func\<close>: the function wrapped by \<open>_set_args\<close>, with its arguments.\<close>

datatype pyfunc =
    Cmd_rem string
  | Cmd_delay int
  | Set_default_delay int
  | Pyautogui_typewrite string
  | Cmd_repeat target int
  | Pyautogui_hotkey "string option list"

text \<open>The attributes of a \<open>DuckyCommand\<close>: \<open>_skip_delay\<close>, \<open>_default_delay\<close>,
  whether \<open>_script\<close> is the interface dictionary of the script (it is \<open>None\<close>
  otherwise; the dictionary \<open>DuckyScript\<close> passes has all three keys, so the check of
  the keys in \<open>__init__\<close> passes), \<open>lineno\<close>, \<open>raw_line\<close> and \<open>python_func\<close>.\<close>

record DuckyCommand =
  skip_delay :: bool
  cmd_default_delay :: int
  has_script :: bool
  lineno :: int
  raw_line :: string
  python_func :: pyfunc

text \<open>What reaches the outside: \<open>time.sleep(ms / 1000)\<close>, \<open>pyautogui.typewrite\<close> and
  \<open>pyautogui.hotkey\<close>, in the order of the calls.\<close>

datatype event = Slept int | Typed string | Pressed "string option list"

text \<open>
  \<open>DuckyScript.commands\<close> is first the list made in \<open>__init__\<close>, the very object
  bound to \<open>_script['commands']\<close> (\<open>InitList\<close>: its content is \<open>iface_commands\<close>);
  \<open>load\<close> rebinds it to a tuple at its end, and to a new list when it finds a tuple.
\<close>

datatype commands_val = InitList | FreshList "addr list" | TupleOf "addr list"

text \<open>The state: the heap of command objects, the attributes \<open>commands\<close> and
  \<open>_default_delay\<close> of the script, the content of the list \<open>_script['commands']\<close>,
  the attribute \<open>_skip_delay\<close> of the function object \<open>_cmd_rem\<close> (\<open>None\<close> while
  it has none), and the calls that reached the outside so far.\<close>

record state =
  heap :: "DuckyCommand list"
  commands :: commands_val
  script_default_delay :: int
  iface_commands :: "addr list"
  rem_skip_delay :: "bool option"
  events :: "event list"

text \<open>The state after \<open>DuckyScript.__init__\<close> (the checks of the path are outside the
  model); \<open>_cmd_rem\<close> has no attribute \<open>_skip_delay\<close> yet.\<close>

definition DuckyScript_init :: state where
  "DuckyScript_init =
     \<lparr>heap = [], commands = InitList, script_default_delay = 0, iface_commands = [],
      rem_skip_delay = None, events = []\<rparr>"

definition commands_of :: "state \<Rightarrow> addr list" where
  "commands_of st =
     (case commands st of
        InitList \<Rightarrow> iface_commands st
      | FreshList xs \<Rightarrow> xs
      | TupleOf xs \<Rightarrow> xs)"

definition is_tuple :: "commands_val \<Rightarrow> bool" where
  "is_tuple v = (case v of TupleOf xs \<Rightarrow> True | _ \<Rightarrow> False)"

text \<open>\<open>xs[i]\<close> on a list or tuple: a negative index counts from the end.\<close>

definition py_item :: "'a list \<Rightarrow> int \<Rightarrow> error + 'a" where
  "py_item xs i =
     (if 0 \<le> i \<and> i < int (length xs) then Inr (xs ! nat i)
      else if i < 0 \<and> - int (length xs) \<le> i then Inr (xs ! nat (int (length xs) + i))
      else Inl IndexError)"

subsection \<open>The translator: \<open>DuckyCommand._to_python\<close> and \<open>__init__\<close>\<close>

text \<open>The keys of a key line: \<open>sum(tuple(translate_key(key) for key in dline), ())\<close>.\<close>

definition press_keys :: "env \<Rightarrow> string list \<Rightarrow> error + string option list" where
  "press_keys e dline =
     (case collect (map (translate_key e) dline) of
        Inl err \<Rightarrow> Inl err
      | Inr ts \<Rightarrow> Inr (concat ts))"

text \<open>The command a \<open>REPEAT\<close> at line \<open>ln\<close> repeats:
  \<open>_script['commands'][self.lineno - 1]\<close>, and \<open>_cmd_rem\<close> in the handler of
  \<open>IndexError\<close>.\<close>

definition to_repeat :: "addr list \<Rightarrow> int \<Rightarrow> error + target" where
  "to_repeat cmds ln =
     (case py_item cmds (ln - 1) of
        Inl err \<Rightarrow> if err = IndexError then Inr RemFunction else Inl err
      | Inr c \<Rightarrow> Inr (Cmd c))"

text \<open>
  \<open>to_python e script ln dline\<close>: \<open>script\<close> is \<open>None\<close> for a command made without a
  script, and otherwise the content of the list \<open>_script['commands']\<close> at this moment.
  The result is the value left in \<open>_skip_delay\<close> and the function returned.
  Every verb branch first formats \<open>dline[1]\<close> for the logger, \<open>DEFAULT_DELAY\<close> and
  \<open>REPEAT\<close> then subscript \<open>_script\<close> (\<open>TypeError\<close> on \<open>None\<close>), and the key branch
  joins the keys with \<open>','.join(keys)\<close> (\<open>TypeError\<close> on a \<open>None\<close> item).
\<close>

definition to_python ::
  "env \<Rightarrow> addr list option \<Rightarrow> int \<Rightarrow> string \<Rightarrow> error + bool \<times> pyfunc" where
  "to_python e script ln dline0 =
     (let dline = split_maxsplit1 (strip dline0) in
      case py_item dline 0 of
        Inl err \<Rightarrow> Inl err
      | Inr d0 \<Rightarrow>
      (case is_valid_cmd e d0 of
        Inl err \<Rightarrow> Inl err
      | Inr ok \<Rightarrow>
      if \<not> ok then Inl ValueError
      else
      (case (if is_valid_alias d0 then get_alias_target d0 else Inr d0) of
        Inl err \<Rightarrow> Inl err
      | Inr verb \<Rightarrow>
      if verb = ''REM'' then
        (case py_item dline 1 of
           Inl err \<Rightarrow> Inl err
         | Inr a \<Rightarrow> Inr (True, Cmd_rem a))
      else if verb = ''DELAY'' then
        (case py_item dline 1 of
           Inl err \<Rightarrow> Inl err
         | Inr a \<Rightarrow>
             (case py_int a of
                None \<Rightarrow> Inl ValueError
              | Some ms \<Rightarrow> Inr (False, Cmd_delay ms)))
      else if verb = ''DEFAULT_DELAY'' then
        (case py_item dline 1 of
           Inl err \<Rightarrow> Inl err
         | Inr a \<Rightarrow>
             (case script of
                None \<Rightarrow> Inl TypeError
              | Some cmds \<Rightarrow>
                  (case py_int a of
                     None \<Rightarrow> Inl ValueError
                   | Some ms \<Rightarrow> Inr (False, Set_default_delay ms))))
      else if verb = ''STRING'' then
        (case py_item dline 1 of
           Inl err \<Rightarrow> Inl err
         | Inr a \<Rightarrow> Inr (False, Pyautogui_typewrite a))
      else if verb = ''REPEAT'' then
        (case py_item dline 1 of
           Inl err \<Rightarrow> Inl err
         | Inr a \<Rightarrow>
             (case script of
                None \<Rightarrow> Inl TypeError
              | Some cmds \<Rightarrow>
                  (case to_repeat cmds ln of
                     Inl err \<Rightarrow> Inl err
                   | Inr dcmd \<Rightarrow>
                       (case py_int a of
                          None \<Rightarrow> Inl ValueError
                        | Some n \<Rightarrow> Inr (False, Cmd_repeat dcmd n)))))
      else
        (case press_keys e (dline[0 := verb]) of
           Inl err \<Rightarrow> Inl err
         | Inr keys \<Rightarrow>
             if None \<in> set keys then Inl TypeError
             else Inr (False, Pyautogui_hotkey keys)))))"

definition DuckyCommand_init ::
  "env \<Rightarrow> string \<Rightarrow> int \<Rightarrow> int \<Rightarrow> addr list option \<Rightarrow> error + DuckyCommand" where
  "DuckyCommand_init e dline ln dd script =
     (case to_python e script ln dline of
        Inl err \<Rightarrow> Inl err
      | Inr (skip, f) \<Rightarrow>
          Inr \<lparr>skip_delay = skip, cmd_default_delay = dd, has_script = (script \<noteq> None),
               lineno = ln, raw_line = dline, python_func = f\<rparr>)"

subsection \<open>Execution: \<open>DuckyCommand.execute\<close>, \<open>_cmd_delay\<close>, \<open>_cmd_repeat\<close>\<close>

text \<open>The property \<open>DuckyCommand.default_delay\<close>.\<close>

definition default_delay :: "state \<Rightarrow> DuckyCommand \<Rightarrow> int" where
  "default_delay st c = (if has_script c then script_default_delay st else cmd_default_delay c)"

text \<open>\<open>_cmd_delay\<close>: \<open>time.sleep(ms / 1000)\<close> first converts the length and raises
  \<open>OverflowError\<close> when it is out of the range of the host, then raises
  \<open>ValueError\<close> on a negative length, and sleeps otherwise.\<close>

definition cmd_delay :: "env \<Rightarrow> int \<Rightarrow> state \<Rightarrow> error \<times> state + state" where
  "cmd_delay e ms st =
     (if ms < - sleep_limit e \<or> sleep_limit e < ms then Inl (OverflowError, st)
      else if ms < 0 then Inl (ValueError, st)
      else Inr (st\<lparr>events := events st @ [Slept ms]\<rparr>))"

text \<open>\<open>dcmd._skip_delay = b\<close>: on a command, or on the function object \<open>_cmd_rem\<close>.\<close>

definition set_skip_delay :: "target \<Rightarrow> bool \<Rightarrow> state \<Rightarrow> state" where
  "set_skip_delay dcmd b st =
     (case dcmd of
        RemFunction \<Rightarrow> st\<lparr>rem_skip_delay := Some b\<rparr>
      | Cmd a \<Rightarrow> st\<lparr>heap := (heap st)[a := (heap st ! a)\<lparr>skip_delay := b\<rparr>]\<rparr>)"

text \<open>\<open>dcmd.execute()\<close>: a function object has no attribute \<open>execute\<close>.\<close>

definition target_execute ::
  "(state \<Rightarrow> addr \<Rightarrow> (error \<times> state + state) option) \<Rightarrow> target \<Rightarrow> state \<Rightarrow>
   (error \<times> state + state) option" where
  "target_execute exec dcmd st =
     (case dcmd of
        RemFunction \<Rightarrow> Some (Inl (AttributeError, st))
      | Cmd a \<Rightarrow> exec st a)"

text \<open>\<open>for num in range(k): body\<close>, left at the first exception. The result \<open>None\<close> is
  not a result of the program: it says that the model gave up (see \<open>execute\<close>).\<close>

fun repeat_loop ::
  "nat \<Rightarrow> (state \<Rightarrow> (error \<times> state + state) option) \<Rightarrow> state \<Rightarrow>
   (error \<times> state + state) option" where
  "repeat_loop 0 body st = Some (Inr st)"
| "repeat_loop (Suc k) body st =
     (case body st of
        None \<Rightarrow> None
      | Some (Inl x) \<Rightarrow> Some (Inl x)
      | Some (Inr st') \<Rightarrow> repeat_loop k body st')"

definition cmd_repeat ::
  "(state \<Rightarrow> addr \<Rightarrow> (error \<times> state + state) option) \<Rightarrow> target \<Rightarrow> int \<Rightarrow> state \<Rightarrow>
   (error \<times> state + state) option" where
  "cmd_repeat exec dcmd num_times st =
     (case repeat_loop (nat num_times) (target_execute exec dcmd) (set_skip_delay dcmd True st) of
        None \<Rightarrow> None
      | Some (Inl x) \<Rightarrow> Some (Inl x)
      | Some (Inr st') \<Rightarrow> Some (Inr (set_skip_delay dcmd False st')))"

text \<open>Calling \<open>python_func()\<close>.\<close>

definition call_func ::
  "env \<Rightarrow> (state \<Rightarrow> addr \<Rightarrow> (error \<times> state + state) option) \<Rightarrow> state \<Rightarrow> pyfunc \<Rightarrow>
   (error \<times> state + state) option" where
  "call_func e exec st f =
     (case f of
        Cmd_rem comment \<Rightarrow> Some (Inr st)
      | Cmd_delay ms \<Rightarrow> Some (cmd_delay e ms st)
      | Set_default_delay new_delay \<Rightarrow> Some (Inr (st\<lparr>script_default_delay := new_delay\<rparr>))
      | Pyautogui_typewrite s \<Rightarrow> Some (Inr (st\<lparr>events := events st @ [Typed s]\<rparr>))
      | Cmd_repeat dcmd num_times \<Rightarrow> cmd_repeat exec dcmd num_times st
      | Pyautogui_hotkey keys \<Rightarrow> Some (Inr (st\<lparr>events := events st @ [Pressed keys]\<rparr>)))"

text \<open>
  \<open>execute e depth st a\<close> runs \<open>execute()\<close> of the command at address \<open>a\<close>. A \<open>REPEAT\<close>
  of a \<open>REPEAT\<close> nests calls of \<open>execute\<close>; \<open>depth\<close> bounds the nesting. The result is
  \<open>None\<close> when the bound is used up or an address is not in the heap, \<open>Some (Inl (err,
  st'))\<close> when the call raises \<open>err\<close> in state \<open>st'\<close>, and \<open>Some (Inr st')\<close> when it
  returns.
\<close>

primrec execute :: "env \<Rightarrow> nat \<Rightarrow> state \<Rightarrow> addr \<Rightarrow> (error \<times> state + state) option" where
  "execute e 0 st a = None"
| "execute e (Suc depth) st a =
     (if a < length (heap st) then
        (case (if \<not> skip_delay (heap st ! a)
               then cmd_delay e (default_delay st (heap st ! a)) st
               else Inr st) of
           Inl x \<Rightarrow> Some (Inl x)
         | Inr st1 \<Rightarrow> call_func e (execute e depth) st1 (python_func (heap st ! a)))
      else None)"

subsection \<open>\<open>DuckyScript.load\<close> and \<open>DuckyScript.run\<close>\<close>

text \<open>\<open>self.commands.append(dcmd)\<close>; a tuple has no \<open>append\<close>.\<close>

definition append_command :: "addr \<Rightarrow> state \<Rightarrow> error + state" where
  "append_command a st =
     (case commands st of
        InitList \<Rightarrow> Inr (st\<lparr>iface_commands := iface_commands st @ [a]\<rparr>)
      | FreshList xs \<Rightarrow> Inr (st\<lparr>commands := FreshList (xs @ [a])\<rparr>)
      | TupleOf xs \<Rightarrow> Inl AttributeError)"

text \<open>The loop over \<open>enumerate(dfile)\<close>, from line number \<open>n\<close> on. A new command object
  gets the next free address. An exception leaves the loop with the state as it is.\<close>

fun load_lines :: "env \<Rightarrow> nat \<Rightarrow> string list \<Rightarrow> state \<Rightarrow> error \<times> state + state" where
  "load_lines e n [] st = Inr st"
| "load_lines e n (l # ls) st =
     (let line = strip l in
      if length line > 0 then
        (case DuckyCommand_init e line (int n) 0 (Some (iface_commands st)) of
           Inl err \<Rightarrow> Inl (err, st)
         | Inr dcmd \<Rightarrow>
             (let st1 = st\<lparr>heap := heap st @ [dcmd]\<rparr> in
              case append_command (length (heap st)) st1 of
                Inl err \<Rightarrow> Inl (err, st1)
              | Inr st2 \<Rightarrow> load_lines e (Suc n) ls st2))
      else load_lines e (Suc n) ls st)"

text \<open>\<open>load e dfile st\<close>: \<open>dfile\<close> holds the lines of the file at \<open>script_path\<close>.\<close>

definition load :: "env \<Rightarrow> string list \<Rightarrow> state \<Rightarrow> error \<times> state + state" where
  "load e dfile st =
     (let st0 = (if is_tuple (commands st) then st\<lparr>commands := FreshList []\<rparr> else st) in
      case load_lines e 0 dfile st0 of
        Inl x \<Rightarrow> Inl x
      | Inr st1 \<Rightarrow> Inr (st1\<lparr>commands := TupleOf (commands_of st1)\<rparr>))"

fun run_commands ::
  "env \<Rightarrow> nat \<Rightarrow> addr list \<Rightarrow> state \<Rightarrow> (error \<times> state + state) option" where
  "run_commands e depth [] st = Some (Inr st)"
| "run_commands e depth (a # as) st =
     (case execute e depth st a of
        None \<Rightarrow> None
      | Some (Inl x) \<Rightarrow> Some (Inl x)
      | Some (Inr st') \<Rightarrow> run_commands e depth as st')"

definition run :: "env \<Rightarrow> string list \<Rightarrow> nat \<Rightarrow> state \<Rightarrow> (error \<times> state + state) option" where
  "run e dfile depth st =
     (case (if \<not> is_tuple (commands st) then load e dfile st else Inr st) of
        Inl x \<Rightarrow> Some (Inl x)
      | Inr st1 \<Rightarrow> run_commands e depth (commands_of st1) st1)"

subsection \<open>A worked example\<close>

text \<open>A host for the worked examples: some of the key names of \<open>pyautogui\<close>, not on
  macOS.\<close>

definition example_env :: env where
  "example_env =
     \<lparr>KEYBOARD_KEYS = ['' '', ''a'', ''r'', ''alt'', ''apps'', ''command'', ''ctrl'',
                        ''delete'', ''down'', ''enter'', ''escape'', ''left'', ''pause'',
                        ''right'', ''shift'', ''up'', ''winleft''],
      platform = ''linux'', sleep_limit = 9223372036854\<rparr>"

text \<open>A script for the worked examples, and the state after loading it.\<close>

definition example_script :: "string list" where
  "example_script = [''DEFAULT_DELAY 100'', ''STRING a'', ''REPEAT 3'', ''REM hi'', ''REPEAT 2'']"

definition example_loaded :: state where
  "example_loaded =
     \<lparr>heap =
        [\<lparr>skip_delay = False, cmd_default_delay = 0, has_script = True, lineno = 0,
          raw_line = ''DEFAULT_DELAY 100'', python_func = Set_default_delay 100\<rparr>,
         \<lparr>skip_delay = False, cmd_default_delay = 0, has_script = True, lineno = 1,
          raw_line = ''STRING a'', python_func = Pyautogui_typewrite ''a''\<rparr>,
         \<lparr>skip_delay = False, cmd_default_delay = 0, has_script = True, lineno = 2,
          raw_line = ''REPEAT 3'', python_func = Cmd_repeat (Cmd 1) 3\<rparr>,
         \<lparr>skip_delay = True, cmd_default_delay = 0, has_script = True, lineno = 3,
          raw_line = ''REM hi'', python_func = Cmd_rem ''hi''\<rparr>,
         \<lparr>skip_delay = False, cmd_default_delay = 0, has_script = True, lineno = 4,
          raw_line = ''REPEAT 2'', python_func = Cmd_repeat (Cmd 3) 2\<rparr>],
      commands = TupleOf [0, 1, 2, 3, 4], script_default_delay = 0,
      iface_commands = [0, 1, 2, 3, 4], rem_skip_delay = None, events = []\<rparr>"

text \<open>The same state with the default delay set, as \<open>DEFAULT_DELAY 100\<close> leaves it.\<close>

definition example_delayed :: state where
  "example_delayed = example_loaded\<lparr>script_default_delay := 100\<rparr>"

text \<open>A script that delays by a negative time and repeats that, and the state after
  loading it.\<close>

definition example_negative :: state where
  "example_negative =
     \<lparr>heap =
        [\<lparr>skip_delay = False, cmd_default_delay = 0, has_script = True, lineno = 0,
          raw_line = ''DELAY -5'', python_func = Cmd_delay (- 5)\<rparr>,
         \<lparr>skip_delay = False, cmd_default_delay = 0, has_script = True, lineno = 1,
          raw_line = ''REPEAT 2'', python_func = Cmd_repeat (Cmd 0) 2\<rparr>],
      commands = TupleOf [0, 1], script_default_delay = 0,
      iface_commands = [0, 1], rem_skip_delay = None, events = []\<rparr>"

subsection \<open>Vocabulary of the statements\<close>

text \<open>The state in a result, raised or returned.\<close>

definition state_of :: "error \<times> state + state \<Rightarrow> state" where
  "state_of r = (case r of Inl (err, st) \<Rightarrow> st | Inr st \<Rightarrow> st)"

text \<open>The lines of a file that \<open>load\<close> translates, stripped, with their line numbers,
  counted from \<open>n\<close>.\<close>

fun numbered_lines :: "nat \<Rightarrow> string list \<Rightarrow> (int \<times> string) list" where
  "numbered_lines n [] = []"
| "numbered_lines n (l # ls) =
     (if strip l \<noteq> [] then (int n, strip l) # numbered_lines (Suc n) ls
      else numbered_lines (Suc n) ls)"

text \<open>The exception in a result, and the exception the translator raises on a line
  of a script, if any (it depends neither on the line number nor on the commands made so
  far, see \<open>init_error\<close>).\<close>

definition raised :: "'e + 'a \<Rightarrow> 'e option" where
  "raised r = (case r of Inl err \<Rightarrow> Some err | Inr v \<Rightarrow> None)"

definition line_error :: "env \<Rightarrow> string \<Rightarrow> error option" where
  "line_error e l = raised (to_python e (Some []) 0 l)"

text \<open>\<open>grows st new st'\<close>: \<open>st'\<close> is \<open>st\<close> with the command objects \<open>new\<close> allocated
  and appended to \<open>commands\<close>, which is still a list.\<close>

definition grows :: "state \<Rightarrow> DuckyCommand list \<Rightarrow> state \<Rightarrow> bool" where
  "grows st new st' \<longleftrightarrow>
     heap st' = heap st @ new \<and>
     commands_of st' = commands_of st @ [length (heap st) ..< length (heap st) + length new] \<and>
     iface_commands st' =
       (if commands st = InitList
        then iface_commands st @ [length (heap st) ..< length (heap st) + length new]
        else iface_commands st) \<and>
     (commands st' = InitList) = (commands st = InitList) \<and>
     \<not> is_tuple (commands st') \<and>
     script_default_delay st' = script_default_delay st \<and>
     rem_skip_delay st' = rem_skip_delay st \<and>
     events st' = events st"

text \<open>\<open>keeps st st'\<close>: from \<open>st\<close> to \<open>st'\<close> the heap has the same command objects,
  changed at most in \<open>_skip_delay\<close>, the command lists are the same, and events were
  only added.\<close>

definition keeps :: "state \<Rightarrow> state \<Rightarrow> bool" where
  "keeps st st' \<longleftrightarrow>
     length (heap st') = length (heap st) \<and>
     (\<forall>i < length (heap st). heap st' ! i = (heap st ! i)\<lparr>skip_delay := skip_delay (heap st' ! i)\<rparr>) \<and>
     commands st' = commands st \<and>
     iface_commands st' = iface_commands st \<and>
     (\<exists>evs. events st' = events st @ evs)"


text \<open>A heap is well formed when every \<open>REPEAT\<close> refers to an object at a smaller
  address, that is, to an object made before it.\<close>

definition repeats_earlier :: "addr \<Rightarrow> DuckyCommand \<Rightarrow> bool" where
  "repeats_earlier a c =
     (case python_func c of
        Cmd_repeat dcmd n \<Rightarrow> (case dcmd of RemFunction \<Rightarrow> True | Cmd t \<Rightarrow> t < a)
      | _ \<Rightarrow> True)"

definition wf_heap :: "DuckyCommand list \<Rightarrow> bool" where
  "wf_heap h = list_all (\<lambda>(a, c). repeats_earlier a c) (zip [0 ..< length h] h)"

text \<open>The object a \<open>REPEAT\<close> refers to exists: \<open>_cmd_rem\<close>, or a command in the heap.\<close>

definition is_object :: "state \<Rightarrow> target \<Rightarrow> bool" where
  "is_object st dcmd = (case dcmd of RemFunction \<Rightarrow> True | Cmd a \<Rightarrow> a < length (heap st))"

text \<open>The states a script can reach: the heap is well formed and the command lists hold
  addresses of the heap.\<close>

definition wf_state :: "state \<Rightarrow> bool" where
  "wf_state st \<longleftrightarrow>
     wf_heap (heap st) \<and>
     list_all (\<lambda>a. a < length (heap st)) (iface_commands st) \<and>
     list_all (\<lambda>a. a < length (heap st)) (commands_of st)"


text \<open>The states reached from a new script by calls of \<open>load\<close> and \<open>execute\<close>.\<close>

inductive reachable :: "state \<Rightarrow> bool" where
  init: "reachable DuckyScript_init"
| load: "reachable st \<Longrightarrow> reachable (state_of (load e dfile st))"
| exec: "reachable st \<Longrightarrow> execute e d st a = Some r \<Longrightarrow> reachable (state_of r)"

section \<open>Properties\<close>

subsection \<open>The resolver\<close>

text \<open>The equation of \<open>translate_key\<close> is used by hand: it contains
  \<open>translate_key\<close> again.\<close>

declare translate_key.simps [simp del]

lemma split_acc_no_sep:
  "p \<in> set (split_acc sep cur s) \<Longrightarrow> sep \<notin> set cur \<Longrightarrow> sep \<notin> set p"
proof (induction s arbitrary: cur)
  case Nil
  then show ?case by simp
next
  case (Cons x xs)
  show ?case
  proof (cases "x = sep")
    case True
    with Cons.prems have "p = rev cur \<or> p \<in> set (split_acc sep [] xs)"
      by simp
    then show ?thesis
      using Cons.prems(2) Cons.IH [of "[]"] by auto
  next
    case False
    with Cons.prems have "p \<in> set (split_acc sep (x # cur) xs)"
      by simp
    with False Cons.prems(2) Cons.IH [of "x # cur"] show ?thesis
      by auto
  qed
qed

lemma py_split_no_sep: "p \<in> set (py_split sep s) \<Longrightarrow> sep \<notin> set p"
  unfolding py_split_def using split_acc_no_sep [of p sep "[]" s] by simp

lemma get_alias_target_valid: "is_valid_alias d \<Longrightarrow> \<exists>t. get_alias_target d = Inr t"
proof -
  assume v: "is_valid_alias d"
  then have "d \<in> fst ` set ALIAS"
    by (simp add: is_valid_alias_def)
  then have "map_of ALIAS d \<noteq> None"
    by (simp add: map_of_eq_None_iff)
  with v show ?thesis
    by (auto simp: get_alias_target_def)
qed

lemma translate_key_plain:
  assumes "CHR ''-'' \<notin> set d"
  shows "\<exists>k. translate_key e d = Inr [k]"
proof (cases "is_valid_alias d")
  case True
  then obtain t where "get_alias_target d = Inr t"
    using get_alias_target_valid by blast
  with True assms show ?thesis
    by (subst translate_key.simps) (simp add: Let_def)
next
  case False
  with assms show ?thesis
    by (subst translate_key.simps) (simp add: Let_def)
qed

lemma collect_firsts:
  "(\<And>p. p \<in> set ps \<Longrightarrow> \<exists>k. f p = Inr [k]) \<Longrightarrow>
   \<exists>ts. collect (map f ps) = Inr ts \<and>
        collect (map (\<lambda>key. case f key of Inl err \<Rightarrow> Inl err | Inr t \<Rightarrow> item0 t) ps)
          = Inr (concat ts)"
proof (induction ps)
  case Nil
  then show ?case by simp
next
  case (Cons p ps)
  from Cons.prems obtain k where k: "f p = Inr [k]"
    by (meson list.set_intros(1))
  from Cons obtain ts where ts: "collect (map f ps) = Inr ts"
    "collect (map (\<lambda>key. case f key of Inl err \<Rightarrow> Inl err | Inr t \<Rightarrow> item0 t) ps) = Inr (concat ts)"
    by (meson list.set_intros(2))
  from k ts show ?case
    by (simp add: item0_def)
qed

text \<open>
  Claim C8. For a key \<open>T\<close> that contains \<open>-\<close>, \<open>translate_key\<close> returns the
  concatenation of the translations of the \<open>-\<close>-separated parts, each part translated
  on its own; neither side raises.
\<close>

theorem translate_key_distributes:
  assumes "CHR ''-'' \<in> set T"
  shows "\<exists>ts. collect (map (translate_key e) (py_split CHR ''-'' T)) = Inr ts \<and>
              translate_key e T = Inr (concat ts)"
proof -
  have "\<And>p. p \<in> set (py_split CHR ''-'' T) \<Longrightarrow> \<exists>k. translate_key e p = Inr [k]"
    using py_split_no_sep translate_key_plain by blast
  from collect_firsts [of "py_split CHR ''-'' T" "translate_key e", OF this]
  obtain ts where "collect (map (translate_key e) (py_split CHR ''-'' T)) = Inr ts"
    and "collect (map (\<lambda>key. case translate_key e key of Inl err \<Rightarrow> Inl err | Inr t \<Rightarrow> item0 t)
                   (py_split CHR ''-'' T)) = Inr (concat ts)"
    by blast
  with assms show ?thesis
    by (subst translate_key.simps) simp
qed

theorem translate_key_distributes_witness:
  "CHR ''-'' \<in> set ''CTRL-ALT'' \<and>
   (\<exists>ts. collect (map (translate_key example_env) (py_split CHR ''-'' ''CTRL-ALT'')) = Inr ts \<and>
         translate_key example_env ''CTRL-ALT'' = Inr (concat ts))"
  using translate_key_distributes [of "''CTRL-ALT''" example_env] by simp

subsection \<open>The translator\<close>

lemma is_valid_cmd_COMMANDS: "v \<in> set COMMANDS \<Longrightarrow> is_valid_cmd e v = Inr True"
proof -
  assume v: "v \<in> set COMMANDS"
  then have "CHR ''-'' \<notin> set v"
    by (auto simp: COMMANDS_def)
  then obtain k where "translate_key e v = Inr [k]"
    using translate_key_plain by blast
  with v show ?thesis
    by (simp add: is_valid_cmd_def)
qed

lemma COMMANDS_not_alias: "v \<in> set COMMANDS \<Longrightarrow> \<not> is_valid_alias v"
  by (auto simp: COMMANDS_def is_valid_alias_def ALIAS_def)

lemma COMMANDS_split: "v \<in> set COMMANDS \<Longrightarrow> split_maxsplit1 (strip v) = [v]"
  by (auto simp: COMMANDS_def split_maxsplit1_def strip_def is_space_def)

text \<open>A line that is one of the five statement verbs and nothing else is split into the
  verb alone, with no second item; reading \<open>dline[1]\<close> for the message of the logger
  then raises \<open>IndexError\<close> and no command is made.\<close>

lemma statement_verb_alone:
  assumes "v \<in> set COMMANDS"
  shows "split_maxsplit1 (strip v) = [v] \<and> to_python e script ln v = Inl IndexError"
proof -
  have "py_item [v] 0 = Inr v" "py_item [v] 1 = Inl IndexError"
    by (simp_all add: py_item_def)
  moreover from assms have "v = ''REM'' \<or> v = ''DELAY'' \<or> v = ''DEFAULT_DELAY'' \<or> v = ''STRING'' \<or> v = ''REPEAT''"
    by (auto simp: COMMANDS_def)
  ultimately show ?thesis
    using is_valid_cmd_COMMANDS [OF assms] COMMANDS_not_alias [OF assms] COMMANDS_split [OF assms]
    by (auto simp: to_python_def)
qed

text \<open>
  Claim C7 at the lines \<open>REM\<close> and \<open>STRING\<close>. The split gives the verb alone, and the
  translation does not make a command with an empty remainder: it raises \<open>IndexError\<close>
  (which \<open>load\<close> passes on), where the docstrings name \<open>ValueError\<close> only.
\<close>

theorem verb_alone_raises:
  "split_maxsplit1 (strip ''REM'') = [''REM''] \<and>
   to_python example_env (Some []) 0 ''REM'' = Inl IndexError \<and>
   split_maxsplit1 (strip ''STRING'') = [''STRING''] \<and>
   to_python example_env (Some []) 0 ''STRING'' = Inl IndexError \<and>
   load example_env [''REM''] DuckyScript_init = Inl (IndexError, DuckyScript_init)"
  by code_simp

text \<open>
  Claim C2 at the lines \<open>GUI bogus\<close> and \<open>CTRL ALT DELETE\<close>. The first token passes
  \<open>is_valid_cmd\<close> and is no statement verb, yet the key sequence computed for the line
  holds \<open>None\<close>: only the first token was checked, and the rest of the line is
  translated as one key. The translation then raises \<open>TypeError\<close>, from the
  \<open>join\<close> of the keys.
\<close>

theorem key_line_unresolved_key:
  "is_valid_cmd example_env ''GUI'' = Inr True \<and> ''GUI'' \<notin> set COMMANDS \<and>
   press_keys example_env [''GUI'', ''bogus''] = Inr [Some ''winleft'', None] \<and>
   to_python example_env (Some []) 0 ''GUI bogus'' = Inl TypeError \<and>
   press_keys example_env [''CTRL'', ''ALT DELETE''] = Inr [Some ''ctrl'', None] \<and>
   to_python example_env (Some []) 0 ''CTRL ALT DELETE'' = Inl TypeError"
  by code_simp

text \<open>What does hold: a key-press function that was returned has no \<open>None\<close> among
  its keys, since the \<open>join\<close> raised otherwise.\<close>

lemma hotkey_keys_resolved:
  "to_python e script ln dline = Inr (skip, Pyautogui_hotkey keys) \<Longrightarrow> None \<notin> set keys"
  by (auto simp: to_python_def Let_def split: sum.splits if_splits option.splits)

text \<open>\<open>_cmd_repeat\<close> on the function object \<open>_cmd_rem\<close>: the first
  \<open>dcmd.execute()\<close> raises \<open>AttributeError\<close>; only a count below 1 returns.\<close>

lemma cmd_repeat_function:
  "cmd_repeat exec RemFunction n st =
     (if 1 \<le> n then Some (Inl (AttributeError, st\<lparr>rem_skip_delay := Some True\<rparr>))
      else Some (Inr (st\<lparr>rem_skip_delay := Some False\<rparr>)))"
proof (cases "1 \<le> n")
  case True
  then have "nat n = Suc (nat (n - 1))"
    by arith
  with True show ?thesis
    by (simp add: cmd_repeat_def target_execute_def set_skip_delay_def)
next
  case False
  then have "nat n = 0"
    by simp
  with False show ?thesis
    by (simp add: cmd_repeat_def set_skip_delay_def)
qed

text \<open>
  Claim C1 at the script whose only line is \<open>REPEAT 3\<close>. Loading succeeds and binds
  the function object \<open>_cmd_rem\<close>, not a command, as the object to repeat; running the
  script raises \<open>AttributeError\<close>, whatever the bound on the nesting.
\<close>

theorem repeat_first_raises:
  "load example_env [''REPEAT 3''] DuckyScript_init =
     Inr \<lparr>heap = [\<lparr>skip_delay = False, cmd_default_delay = 0, has_script = True, lineno = 0,
                   raw_line = ''REPEAT 3'', python_func = Cmd_repeat RemFunction 3\<rparr>],
          commands = TupleOf [0], script_default_delay = 0, iface_commands = [0],
          rem_skip_delay = None, events = []\<rparr> \<and>
   run example_env [''REPEAT 3''] (Suc depth) DuckyScript_init =
     Some (Inl (AttributeError,
        \<lparr>heap = [\<lparr>skip_delay = False, cmd_default_delay = 0, has_script = True, lineno = 0,
                   raw_line = ''REPEAT 3'', python_func = Cmd_repeat RemFunction 3\<rparr>],
          commands = TupleOf [0], script_default_delay = 0, iface_commands = [0],
          rem_skip_delay = Some True, events = [Slept 0]\<rparr>))"
proof -
  have l: "load example_env [''REPEAT 3''] DuckyScript_init =
     Inr \<lparr>heap = [\<lparr>skip_delay = False, cmd_default_delay = 0, has_script = True, lineno = 0,
                   raw_line = ''REPEAT 3'', python_func = Cmd_repeat RemFunction 3\<rparr>],
          commands = TupleOf [0], script_default_delay = 0, iface_commands = [0],
          rem_skip_delay = None, events = []\<rparr>"
    by code_simp
  have i: "\<not> is_tuple (commands DuckyScript_init)"
    by (simp add: DuckyScript_init_def is_tuple_def)
  show ?thesis
    unfolding run_def l
    by (simp add: i commands_of_def default_delay_def cmd_delay_def call_func_def
        cmd_repeat_function example_env_def)
qed

text \<open>
  Claim C4 at a script with a blank second line. The command of line 2 is stored at
  position 1, and the \<open>REPEAT\<close> of line 3 looks at position 2, finds nothing there and
  binds \<open>_cmd_rem\<close> instead of the command of line 2.
\<close>

theorem blank_line_shifts_index:
  "load example_env [''STRING a'', '''', ''STRING b'', ''REPEAT 2''] DuckyScript_init =
     Inr \<lparr>heap = [\<lparr>skip_delay = False, cmd_default_delay = 0, has_script = True, lineno = 0,
                   raw_line = ''STRING a'', python_func = Pyautogui_typewrite ''a''\<rparr>,
                 \<lparr>skip_delay = False, cmd_default_delay = 0, has_script = True, lineno = 2,
                   raw_line = ''STRING b'', python_func = Pyautogui_typewrite ''b''\<rparr>,
                 \<lparr>skip_delay = False, cmd_default_delay = 0, has_script = True, lineno = 3,
                   raw_line = ''REPEAT 2'', python_func = Cmd_repeat RemFunction 2\<rparr>],
          commands = TupleOf [0, 1, 2], script_default_delay = 0, iface_commands = [0, 1, 2],
          rem_skip_delay = None, events = []\<rparr>"
  by code_simp

subsection \<open>Loading\<close>

lemma grows_refl: "\<not> is_tuple (commands st) \<Longrightarrow> grows st [] st"
  by (simp add: grows_def)

lemma grows_trans:
  assumes "grows st a st1" and "grows st1 b st2"
  shows "grows st (a @ b) st2"
proof -
  have "[length (heap st) ..< length (heap st) + length a] @
        [length (heap st) + length a ..< length (heap st) + length a + length b] =
        [length (heap st) ..< length (heap st) + (length a + length b)]"
    by (metis add.assoc le_add1 upt_add_eq_append)
  with assms show ?thesis
    by (auto simp: grows_def)
qed

lemma append_command_grows:
  assumes "\<not> is_tuple (commands st)"
  shows "\<exists>st2. append_command (length (heap st)) (st\<lparr>heap := heap st @ [c]\<rparr>) = Inr st2 \<and>
               grows st [c] st2"
  using assms
  by (cases "commands st") (auto simp: append_command_def grows_def commands_of_def is_tuple_def)

lemma init_fields:
  assumes "DuckyCommand_init e l ln dd script = Inr c"
  shows "lineno c = ln \<and> raw_line c = l \<and> has_script c = (script \<noteq> None) \<and> cmd_default_delay c = dd"
  using assms by (auto simp: DuckyCommand_init_def split: sum.splits)

lemma load_lines_grows:
  assumes "\<not> is_tuple (commands st)"
  shows "\<exists>new. grows st new (state_of (load_lines e n ls st)) \<and>
          (\<forall>st'. load_lines e n ls st = Inr st' \<longrightarrow>
                 map (\<lambda>c. (lineno c, raw_line c)) new = numbered_lines n ls)"
  using assms
proof (induction ls arbitrary: n st)
  case Nil
  then show ?case
    using grows_refl [of st] by (auto simp: state_of_def)
next
  case (Cons l ls)
  show ?case
  proof (cases "strip l = []")
    case True
    with Cons.IH [OF Cons.prems, of "Suc n"] show ?thesis
      by simp
  next
    case False
    show ?thesis
    proof (cases "DuckyCommand_init e (strip l) (int n) 0 (Some (iface_commands st))")
      case (Inl err)
      with False grows_refl [OF Cons.prems] show ?thesis
        by (auto simp: state_of_def)
    next
      case (Inr c)
      from append_command_grows [OF Cons.prems, of c] obtain st2 where
        st2: "append_command (length (heap st)) (st\<lparr>heap := heap st @ [c]\<rparr>) = Inr st2"
        and g: "grows st [c] st2"
        by blast
      from g have nt: "\<not> is_tuple (commands st2)"
        by (simp add: grows_def)
      from Cons.IH [OF nt, of "Suc n"] obtain new where
        new: "grows st2 new (state_of (load_lines e (Suc n) ls st2))"
        "\<forall>st'. load_lines e (Suc n) ls st2 = Inr st' \<longrightarrow>
               map (\<lambda>c. (lineno c, raw_line c)) new = numbered_lines (Suc n) ls"
        by blast
      have eq: "load_lines e n (l # ls) st = load_lines e (Suc n) ls st2"
        using False Inr st2 by simp
      from grows_trans [OF g new(1)] have "grows st (c # new) (state_of (load_lines e n (l # ls) st))"
        unfolding eq by simp
      moreover have "\<forall>st'. load_lines e n (l # ls) st = Inr st' \<longrightarrow>
               map (\<lambda>c. (lineno c, raw_line c)) (c # new) = numbered_lines n (l # ls)"
        unfolding eq using new(2) False init_fields [OF Inr] by simp
      ultimately show ?thesis
        by blast
    qed
  qed
qed

lemma load_lines_append:
  "load_lines e n (pre @ rest) st =
     (case load_lines e n pre st of
        Inl x \<Rightarrow> Inl x
      | Inr st1 \<Rightarrow> load_lines e (n + length pre) rest st1)"
  by (induction pre arbitrary: n st) (auto simp: Let_def split: sum.splits)

lemma to_repeat_returns: "\<exists>t. to_repeat cmds ln = Inr t"
  by (auto simp: to_repeat_def py_item_def)

lemma raised_simps [simp]: "raised (Inl err) = Some err" "raised (Inr v) = None"
  by (simp_all add: raised_def)

lemma raised_Inl: "(r = Inl err) = (raised r = Some err)"
  by (cases r) simp_all

lemma to_python_error_any_script:
  "raised (to_python e (Some cmds) ln l) = raised (to_python e (Some cmds') ln' l)"
proof -
  obtain t t' where "to_repeat cmds ln = Inr t" "to_repeat cmds' ln' = Inr t'"
    using to_repeat_returns by blast
  then show ?thesis
    by (simp add: to_python_def Let_def sum.case_distrib [of raised] if_distrib [of raised]
        option.case_distrib [of raised] cong: sum.case_cong option.case_cong if_cong)
qed

lemma init_error:
  "(DuckyCommand_init e l ln dd (Some cmds) = Inl err) = (line_error e l = Some err)"
proof -
  have "raised (DuckyCommand_init e l ln dd (Some cmds)) = raised (to_python e (Some cmds) ln l)"
    by (simp add: DuckyCommand_init_def split: sum.splits)
  then show ?thesis
    using to_python_error_any_script [of e cmds ln l "[]" 0]
    by (simp add: raised_Inl line_error_def)
qed

lemma load_example_script: "load example_env example_script DuckyScript_init = Inr example_loaded"
  by code_simp

lemma load_example_negative:
  "load example_env [''DELAY -5'', ''REPEAT 2''] DuckyScript_init = Inr example_negative"
  by code_simp

lemma load_lines_ok:
  assumes "\<forall>l \<in> set ls. strip l \<noteq> [] \<longrightarrow> line_error e (strip l) = None"
    and "\<not> is_tuple (commands st)"
  shows "\<exists>st'. load_lines e n ls st = Inr st'"
  using assms
proof (induction ls arbitrary: n st)
  case Nil
  then show ?case by simp
next
  case (Cons l ls)
  show ?case
  proof (cases "strip l = []")
    case True
    with Cons show ?thesis by simp
  next
    case False
    with Cons.prems have "line_error e (strip l) = None"
      by simp
    then have "\<And>err. DuckyCommand_init e (strip l) (int n) 0 (Some (iface_commands st)) \<noteq> Inl err"
      by (simp add: init_error)
    then obtain c where c: "DuckyCommand_init e (strip l) (int n) 0 (Some (iface_commands st)) = Inr c"
      by (cases "DuckyCommand_init e (strip l) (int n) 0 (Some (iface_commands st))") auto
    from append_command_grows [OF Cons.prems(2), of c] obtain st2 where
      st2: "append_command (length (heap st)) (st\<lparr>heap := heap st @ [c]\<rparr>) = Inr st2"
      and g: "grows st [c] st2"
      by blast
    from g have "\<not> is_tuple (commands st2)"
      by (simp add: grows_def)
    with Cons.IH [of st2 "Suc n"] Cons.prems(1) obtain st' where "load_lines e (Suc n) ls st2 = Inr st'"
      by auto
    with False c st2 show ?thesis
      by simp
  qed
qed

lemma load_lines_first_error:
  assumes ok: "\<forall>l \<in> set pre. strip l \<noteq> [] \<longrightarrow> line_error e (strip l) = None"
    and bad: "strip bad \<noteq> []" "line_error e (strip bad) = Some err"
    and nt: "\<not> is_tuple (commands st)"
  shows "\<exists>st' new. load_lines e 0 (pre @ bad # post) st = Inl (err, st') \<and>
           grows st new st' \<and> map (\<lambda>c. (lineno c, raw_line c)) new = numbered_lines 0 pre"
proof -
  from load_lines_ok [OF ok nt] obtain st1 where st1: "load_lines e 0 pre st = Inr st1"
    by blast
  from load_lines_grows [OF nt, of e 0 pre] st1 obtain new where
    new: "grows st new st1" "map (\<lambda>c. (lineno c, raw_line c)) new = numbered_lines 0 pre"
    by (auto simp: state_of_def)
  from bad(2) have "DuckyCommand_init e (strip bad) (int (length pre)) 0 (Some (iface_commands st1)) = Inl err"
    by (simp add: init_error)
  with bad(1) have "load_lines e (length pre) (bad # post) st1 = Inl (err, st1)"
    by simp
  with st1 have "load_lines e 0 (pre @ bad # post) st = Inl (err, st1)"
    by (simp add: load_lines_append)
  with new show ?thesis
    by blast
qed

text \<open>
  Claim C3, as amended. When the lines before a line translate and that line, not blank,
  raises, \<open>load\<close> raises the same exception, and the commands made from the
  non-blank lines before it stay in the command list: the list holds what it held when
  \<open>load\<close> began (nothing, if the script had been loaded) followed by these new
  commands, and it is left a list, not a tuple. Nothing is rolled back.
\<close>

theorem load_failure_keeps_commands:
  assumes "\<forall>l \<in> set pre. strip l \<noteq> [] \<longrightarrow> line_error e (strip l) = None"
    and "strip bad \<noteq> []" and "line_error e (strip bad) = Some err"
  shows "\<exists>st' new. load e (pre @ bad # post) st = Inl (err, st') \<and>
           heap st' = heap st @ new \<and>
           map (\<lambda>c. (lineno c, raw_line c)) new = numbered_lines 0 pre \<and>
           commands_of st' =
             (if is_tuple (commands st) then [] else commands_of st) @
             [length (heap st) ..< length (heap st) + length new] \<and>
           \<not> is_tuple (commands st')"
proof -
  define st0 where "st0 = (if is_tuple (commands st) then st\<lparr>commands := FreshList []\<rparr> else st)"
  have nt: "\<not> is_tuple (commands st0)"
    by (simp add: st0_def is_tuple_def)
  have h: "heap st0 = heap st"
    and c: "commands_of st0 = (if is_tuple (commands st) then [] else commands_of st)"
    by (simp_all add: st0_def commands_of_def)
  from load_lines_first_error [OF assms nt, of post] obtain st' new where
    "load_lines e 0 (pre @ bad # post) st0 = Inl (err, st')" "grows st0 new st'"
    "map (\<lambda>c. (lineno c, raw_line c)) new = numbered_lines 0 pre"
    by blast
  then have "load e (pre @ bad # post) st = Inl (err, st') \<and>
           heap st' = heap st @ new \<and>
           map (\<lambda>c. (lineno c, raw_line c)) new = numbered_lines 0 pre \<and>
           commands_of st' =
             (if is_tuple (commands st) then [] else commands_of st) @
             [length (heap st) ..< length (heap st) + length new] \<and>
           \<not> is_tuple (commands st')"
    unfolding load_def st0_def [symmetric] Let_def using h c by (simp add: grows_def)
  then show ?thesis
    by blast
qed

theorem load_failure_keeps_commands_witness:
  "\<exists>st' new. load example_env ([''STRING a'', ''''] @ ''BOGUS 1'' # [''STRING b'']) DuckyScript_init
                 = Inl (ValueError, st') \<and>
           heap st' = heap DuckyScript_init @ new \<and>
           map (\<lambda>c. (lineno c, raw_line c)) new = numbered_lines 0 [''STRING a'', ''''] \<and>
           commands_of st' =
             (if is_tuple (commands DuckyScript_init) then [] else commands_of DuckyScript_init) @
             [length (heap DuckyScript_init) ..< length (heap DuckyScript_init) + length new] \<and>
           \<not> is_tuple (commands st')"
proof -
  have 1: "\<forall>l \<in> set [''STRING a'', '''']. strip l \<noteq> [] \<longrightarrow> line_error example_env (strip l) = None"
    by code_simp
  have 2: "strip ''BOGUS 1'' \<noteq> []"
    by code_simp
  have 3: "line_error example_env (strip ''BOGUS 1'') = Some ValueError"
    by code_simp
  show ?thesis
    by (rule load_failure_keeps_commands [OF 1 2 3])
qed

text \<open>
  Claim C3 as stated fails: after the failed load of \<open>STRING a\<close>, \<open>BOGUS\<close>, the
  command list holds the command of the first line.
\<close>

theorem failed_load_counterexample:
  "load example_env [''STRING a'', ''BOGUS''] DuckyScript_init =
     Inl (ValueError,
       \<lparr>heap = [\<lparr>skip_delay = False, cmd_default_delay = 0, has_script = True, lineno = 0,
                  raw_line = ''STRING a'', python_func = Pyautogui_typewrite ''a''\<rparr>],
        commands = InitList, script_default_delay = 0, iface_commands = [0],
        rem_skip_delay = None, events = []\<rparr>) \<and>
   commands_of
       \<lparr>heap = [\<lparr>skip_delay = False, cmd_default_delay = 0, has_script = True, lineno = 0,
                  raw_line = ''STRING a'', python_func = Pyautogui_typewrite ''a''\<rparr>],
        commands = InitList, script_default_delay = 0, iface_commands = [0],
        rem_skip_delay = None, events = []\<rparr> = [0]"
  by code_simp

lemma load_lines_fresh:
  assumes "\<forall>l \<in> set ls. strip l \<noteq> [] \<longrightarrow> line_error e (strip l) = None"
    and "commands st = FreshList xs"
  shows "\<exists>new. load_lines e n ls st =
                 Inr (st\<lparr>heap := heap st @ new,
                         commands := FreshList (xs @ [length (heap st) ..< length (heap st) + length new])\<rparr>) \<and>
               list_all2 (\<lambda>c (ln, l). DuckyCommand_init e l ln 0 (Some (iface_commands st)) = Inr c)
                 new (numbered_lines n ls)"
  using assms
proof (induction ls arbitrary: n st xs)
  case Nil
  then have "st\<lparr>heap := heap st @ [], commands := FreshList (xs @ [length (heap st) ..< length (heap st) + length ([] :: DuckyCommand list)])\<rparr> = st"
    by simp
  then show ?case
    by (intro exI [of _ "[]"]) simp
next
  case (Cons l ls)
  show ?case
  proof (cases "strip l = []")
    case True
    with Cons.IH [of st xs "Suc n"] Cons.prems show ?thesis
      by simp
  next
    case False
    with Cons.prems have "line_error e (strip l) = None"
      by simp
    then have "\<And>err. DuckyCommand_init e (strip l) (int n) 0 (Some (iface_commands st)) \<noteq> Inl err"
      by (simp add: init_error)
    then obtain c where c: "DuckyCommand_init e (strip l) (int n) 0 (Some (iface_commands st)) = Inr c"
      by (cases "DuckyCommand_init e (strip l) (int n) 0 (Some (iface_commands st))") auto
    define st2 where "st2 = st\<lparr>heap := heap st @ [c], commands := FreshList (xs @ [length (heap st)])\<rparr>"
    have app: "append_command (length (heap st)) (st\<lparr>heap := heap st @ [c]\<rparr>) = Inr st2"
      using Cons.prems(2) by (simp add: append_command_def st2_def)
    have c2: "commands st2 = FreshList (xs @ [length (heap st)])"
      by (simp add: st2_def)
    from Cons.IH [OF _ c2, of "Suc n"] Cons.prems(1) obtain new where
      new: "load_lines e (Suc n) ls st2 =
              Inr (st2\<lparr>heap := heap st2 @ new,
                      commands := FreshList ((xs @ [length (heap st)]) @
                                    [length (heap st2) ..< length (heap st2) + length new])\<rparr>)"
      and all: "list_all2 (\<lambda>c (ln, l). DuckyCommand_init e l ln 0 (Some (iface_commands st2)) = Inr c)
                 new (numbered_lines (Suc n) ls)"
      by auto
    have upt: "[length (heap st)] @ [Suc (length (heap st)) ..< Suc (length (heap st)) + length new] =
               [length (heap st) ..< length (heap st) + Suc (length new)]"
      by (simp add: upt_rec)
    have "load_lines e n (l # ls) st = load_lines e (Suc n) ls st2"
      using False c app by simp
    also have "\<dots> = Inr (st\<lparr>heap := heap st @ (c # new),
                         commands := FreshList (xs @ [length (heap st) ..< length (heap st) + length (c # new)])\<rparr>)"
      unfolding new using upt by (simp add: st2_def)
    finally have 1: "load_lines e n (l # ls) st =
        Inr (st\<lparr>heap := heap st @ (c # new),
                commands := FreshList (xs @ [length (heap st) ..< length (heap st) + length (c # new)])\<rparr>)" .
    have 2: "list_all2 (\<lambda>c (ln, l). DuckyCommand_init e l ln 0 (Some (iface_commands st)) = Inr c)
                 (c # new) (numbered_lines n (l # ls))"
      using False c all by (simp add: st2_def)
    from 1 2 show ?thesis
      by blast
  qed
qed

text \<open>
  Claim C9. \<open>load\<close> on a script whose \<open>commands\<close> is a tuple. Whether it returns or
  raises, the default delay is unchanged and the command list holds command objects made
  by this call only (the addresses from the old end of the heap on). When every non-blank
  line translates, \<open>load\<close> returns: the state is the old one with the new objects added
  to the heap and \<open>commands\<close> a tuple of exactly their addresses, and the new objects
  are, in order, what the constructor makes of the non-blank lines with their line
  numbers.
\<close>

theorem reload_replaces_commands:
  assumes "is_tuple (commands st)"
  shows "(\<exists>new. heap (state_of (load e dfile st)) = heap st @ new \<and>
            commands_of (state_of (load e dfile st)) =
              [length (heap st) ..< length (heap st) + length new] \<and>
            script_default_delay (state_of (load e dfile st)) = script_default_delay st) \<and>
         ((\<forall>l \<in> set dfile. strip l \<noteq> [] \<longrightarrow> line_error e (strip l) = None) \<longrightarrow>
          (\<exists>new. load e dfile st =
                   Inr (st\<lparr>heap := heap st @ new,
                           commands := TupleOf [length (heap st) ..< length (heap st) + length new]\<rparr>) \<and>
                 list_all2 (\<lambda>c (ln, l). DuckyCommand_init e l ln 0 (Some (iface_commands st)) = Inr c)
                   new (numbered_lines 0 dfile)))"
proof (intro conjI impI)
  define st0 where "st0 = st\<lparr>commands := FreshList []\<rparr>"
  have nt: "\<not> is_tuple (commands st0)"
    by (simp add: st0_def is_tuple_def)
  have l: "load e dfile st =
      (case load_lines e 0 dfile st0 of
         Inl x \<Rightarrow> Inl x
       | Inr st1 \<Rightarrow> Inr (st1\<lparr>commands := TupleOf (commands_of st1)\<rparr>))"
    using assms by (simp add: load_def st0_def)
  from load_lines_grows [OF nt, of e 0 dfile] obtain new where
    g: "grows st0 new (state_of (load_lines e 0 dfile st0))"
    by blast
  define st1 where "st1 = state_of (load_lines e 0 dfile st0)"
  from g have st1: "heap st1 = heap st @ new"
    "commands_of st1 = [length (heap st) ..< length (heap st) + length new]"
    "script_default_delay st1 = script_default_delay st"
    by (simp_all add: st1_def grows_def st0_def commands_of_def)
  have "heap (state_of (load e dfile st)) = heap st @ new \<and>
           commands_of (state_of (load e dfile st)) =
             [length (heap st) ..< length (heap st) + length new] \<and>
           script_default_delay (state_of (load e dfile st)) = script_default_delay st"
  proof (cases "load_lines e 0 dfile st0")
    case (Inl x)
    then have "state_of (load e dfile st) = st1"
      by (simp add: l st1_def state_of_def)
    with st1 show ?thesis
      by simp
  next
    case (Inr s)
    then have "state_of (load e dfile st) = st1\<lparr>commands := TupleOf (commands_of st1)\<rparr>"
      by (simp add: l st1_def state_of_def)
    with st1 show ?thesis
      by (simp add: commands_of_def)
  qed
  then show "\<exists>new. heap (state_of (load e dfile st)) = heap st @ new \<and>
            commands_of (state_of (load e dfile st)) =
              [length (heap st) ..< length (heap st) + length new] \<and>
            script_default_delay (state_of (load e dfile st)) = script_default_delay st"
    by blast
  assume ok: "\<forall>l \<in> set dfile. strip l \<noteq> [] \<longrightarrow> line_error e (strip l) = None"
  have c0: "commands st0 = FreshList []"
    by (simp add: st0_def)
  from load_lines_fresh [OF ok c0, of 0] obtain new' where
    ll: "load_lines e 0 dfile st0 =
          Inr (st0\<lparr>heap := heap st0 @ new',
                   commands := FreshList ([] @ [length (heap st0) ..< length (heap st0) + length new'])\<rparr>)"
    and all: "list_all2 (\<lambda>c (ln, l). DuckyCommand_init e l ln 0 (Some (iface_commands st0)) = Inr c)
                 new' (numbered_lines 0 dfile)"
    by blast
  have "load e dfile st =
          Inr (st\<lparr>heap := heap st @ new',
                  commands := TupleOf [length (heap st) ..< length (heap st) + length new']\<rparr>)"
    unfolding l ll by (simp add: st0_def commands_of_def)
  moreover from all have "list_all2 (\<lambda>c (ln, l). DuckyCommand_init e l ln 0 (Some (iface_commands st)) = Inr c)
                 new' (numbered_lines 0 dfile)"
    by (simp add: st0_def)
  ultimately show "\<exists>new. load e dfile st =
                   Inr (st\<lparr>heap := heap st @ new,
                           commands := TupleOf [length (heap st) ..< length (heap st) + length new]\<rparr>) \<and>
                 list_all2 (\<lambda>c (ln, l). DuckyCommand_init e l ln 0 (Some (iface_commands st)) = Inr c)
                   new (numbered_lines 0 dfile)"
    by blast
qed

theorem reload_replaces_commands_witness:
  "is_tuple (commands example_loaded) \<and>
   (\<exists>new. load example_env [''STRING b'', '''', ''REPEAT 2''] example_loaded =
            Inr (example_loaded
                   \<lparr>heap := heap example_loaded @ new,
                    commands := TupleOf [length (heap example_loaded) ..<
                                         length (heap example_loaded) + length new]\<rparr>) \<and>
          list_all2 (\<lambda>c (ln, l). DuckyCommand_init example_env l ln 0
                                    (Some (iface_commands example_loaded)) = Inr c)
            new (numbered_lines 0 [''STRING b'', '''', ''REPEAT 2''])) \<and>
   numbered_lines 0 [''STRING b'', '''', ''REPEAT 2''] = [(0, ''STRING b''), (2, ''REPEAT 2'')]"
proof -
  have h: "is_tuple (commands example_loaded)"
    by code_simp
  have ok: "\<forall>l \<in> set [''STRING b'', '''', ''REPEAT 2''].
              strip l \<noteq> [] \<longrightarrow> line_error example_env (strip l) = None"
    by code_simp
  have n: "numbered_lines 0 [''STRING b'', '''', ''REPEAT 2''] = [(0, ''STRING b''), (2, ''REPEAT 2'')]"
    by code_simp
  from reload_replaces_commands [OF h, of example_env "[''STRING b'', '''', ''REPEAT 2'']"] ok
  have "\<exists>new. load example_env [''STRING b'', '''', ''REPEAT 2''] example_loaded =
            Inr (example_loaded
                   \<lparr>heap := heap example_loaded @ new,
                    commands := TupleOf [length (heap example_loaded) ..<
                                         length (heap example_loaded) + length new]\<rparr>) \<and>
          list_all2 (\<lambda>c (ln, l). DuckyCommand_init example_env l ln 0
                                    (Some (iface_commands example_loaded)) = Inr c)
            new (numbered_lines 0 [''STRING b'', '''', ''REPEAT 2''])"
    by blast
  with h n show ?thesis
    by blast
qed

text \<open>After a reload the \<open>REPEAT\<close> of line 1 does not refer to the new command of line
  0: \<open>_script['commands']\<close> is still the list of the first load, and its item 0 is the
  old command at address 0.\<close>

lemma reload_repeat_target:
  "load example_env [''STRING b'', ''REPEAT 2''] example_loaded =
     Inr (example_loaded
       \<lparr>heap := heap example_loaded @
          [\<lparr>skip_delay = False, cmd_default_delay = 0, has_script = True, lineno = 0,
            raw_line = ''STRING b'', python_func = Pyautogui_typewrite ''b''\<rparr>,
           \<lparr>skip_delay = False, cmd_default_delay = 0, has_script = True, lineno = 1,
            raw_line = ''REPEAT 2'', python_func = Cmd_repeat (Cmd 0) 2\<rparr>],
        commands := TupleOf [5, 6]\<rparr>)"
  by code_simp

subsection \<open>Execution: what a call of \<open>execute\<close> can change\<close>

lemma wf_heap_iff: "wf_heap h = (\<forall>a < length h. repeats_earlier a (h ! a))"
  by (simp add: wf_heap_def list_all_length)

lemma wf_heap_repeat:
  "wf_heap h \<Longrightarrow> a < length h \<Longrightarrow> python_func (h ! a) = Cmd_repeat (Cmd t) n \<Longrightarrow> t < a"
  by (auto simp: wf_heap_iff repeats_earlier_def)

lemma keeps_refl: "keeps st st"
  by (simp add: keeps_def)

lemma keeps_trans:
  assumes "keeps a b" and "keeps b c"
  shows "keeps a c"
proof -
  from assms have len: "length (heap b) = length (heap a)" "length (heap c) = length (heap a)"
    by (simp_all add: keeps_def)
  have "\<forall>i < length (heap a). heap c ! i = (heap a ! i)\<lparr>skip_delay := skip_delay (heap c ! i)\<rparr>"
  proof (intro allI impI)
    fix i assume i: "i < length (heap a)"
    with assms len have "heap b ! i = (heap a ! i)\<lparr>skip_delay := skip_delay (heap b ! i)\<rparr>"
      and "heap c ! i = (heap b ! i)\<lparr>skip_delay := skip_delay (heap c ! i)\<rparr>"
      by (simp_all add: keeps_def)
    then show "heap c ! i = (heap a ! i)\<lparr>skip_delay := skip_delay (heap c ! i)\<rparr>"
      by (metis DuckyCommand.update_convs(1) DuckyCommand.surjective)
  qed
  moreover from assms have "\<exists>evs. events c = events a @ evs"
    by (auto simp: keeps_def)
  ultimately show ?thesis
    using assms len by (simp add: keeps_def)
qed

lemma keeps_python_func:
  "keeps st st' \<Longrightarrow> i < length (heap st) \<Longrightarrow> python_func (heap st' ! i) = python_func (heap st ! i)"
  by (metis DuckyCommand.select_convs(6) DuckyCommand.surjective DuckyCommand.update_convs(1) keeps_def)

lemma keeps_wf:
  assumes "keeps st st'" and "wf_heap (heap st)"
  shows "wf_heap (heap st')"
proof -
  from assms(1) have len: "length (heap st') = length (heap st)"
    by (simp add: keeps_def)
  have "repeats_earlier a (heap st' ! a)" if "a < length (heap st)" for a
    using that assms(2) keeps_python_func [OF assms(1) that]
    by (simp add: wf_heap_iff repeats_earlier_def)
  with len show ?thesis
    by (simp add: wf_heap_iff)
qed

lemma keeps_set_skip_delay: "keeps st (set_skip_delay dcmd b st)"
proof (cases dcmd)
  case RemFunction
  then show ?thesis
    by (simp add: set_skip_delay_def keeps_def)
next
  case (Cmd a)
  have "\<forall>i < length (heap st).
          (heap st)[a := (heap st ! a)\<lparr>skip_delay := b\<rparr>] ! i =
          (heap st ! i)\<lparr>skip_delay := skip_delay ((heap st)[a := (heap st ! a)\<lparr>skip_delay := b\<rparr>] ! i)\<rparr>"
  proof (intro allI impI)
    fix i assume "i < length (heap st)"
    then show "(heap st)[a := (heap st ! a)\<lparr>skip_delay := b\<rparr>] ! i =
          (heap st ! i)\<lparr>skip_delay := skip_delay ((heap st)[a := (heap st ! a)\<lparr>skip_delay := b\<rparr>] ! i)\<rparr>"
      by (cases "i = a") simp_all
  qed
  with Cmd show ?thesis
    by (simp add: set_skip_delay_def keeps_def)
qed

lemma keeps_cmd_delay: "keeps st (state_of (cmd_delay e ms st))"
  by (simp add: cmd_delay_def state_of_def keeps_def)

lemma repeat_loop_rel:
  assumes rfl: "\<And>s. R s s"
    and trans: "\<And>a b c. R a b \<Longrightarrow> R b c \<Longrightarrow> R a c"
    and body: "\<And>s r. body s = Some r \<Longrightarrow> R s (state_of r)"
  shows "repeat_loop k body st = Some r \<Longrightarrow> R st (state_of r)"
proof (induction k arbitrary: st)
  case 0
  then show ?case
    using rfl by (auto simp: state_of_def)
next
  case (Suc k)
  show ?case
  proof (cases "body st")
    case None
    with Suc.prems show ?thesis by simp
  next
    case (Some r1)
    show ?thesis
    proof (cases r1)
      case (Inl x)
      with Some Suc.prems have "r = r1" by simp
      with body [OF Some] show ?thesis by simp
    next
      case (Inr st1)
      with Some Suc.prems have "repeat_loop k body st1 = Some r" by simp
      from Suc.IH [OF this] body [OF Some] Inr show ?thesis
        using trans by (auto simp: state_of_def)
    qed
  qed
qed

lemma cmd_repeat_keeps:
  assumes exec: "\<And>s a r. exec s a = Some r \<Longrightarrow> keeps s (state_of r)"
    and res: "cmd_repeat exec dcmd n st = Some r"
  shows "keeps st (state_of r)"
proof -
  have body: "\<And>s r. target_execute exec dcmd s = Some r \<Longrightarrow> keeps s (state_of r)"
    using exec by (cases dcmd) (auto simp: target_execute_def state_of_def keeps_refl)
  from res obtain r1 where r1: "repeat_loop (nat n) (target_execute exec dcmd) (set_skip_delay dcmd True st) = Some r1"
    by (auto simp: cmd_repeat_def split: option.splits)
  have k1: "keeps (set_skip_delay dcmd True st) (state_of r1)"
    by (rule repeat_loop_rel [where R = keeps, OF keeps_refl keeps_trans body r1])
  show ?thesis
  proof (cases r1)
    case (Inl x)
    with res r1 have "r = r1" by (simp add: cmd_repeat_def)
    with k1 keeps_set_skip_delay [of st dcmd True] show ?thesis
      using keeps_trans by blast
  next
    case (Inr st1)
    with res r1 have "r = Inr (set_skip_delay dcmd False st1)" by (simp add: cmd_repeat_def)
    with k1 Inr keeps_set_skip_delay [of st dcmd True] keeps_set_skip_delay [of st1 dcmd False]
    show ?thesis
      using keeps_trans by (auto simp: state_of_def)
  qed
qed

lemma call_func_keeps:
  assumes exec: "\<And>s a r. exec s a = Some r \<Longrightarrow> keeps s (state_of r)"
    and res: "call_func e exec st f = Some r"
  shows "keeps st (state_of r)"
proof (cases f)
  case (Cmd_repeat dcmd n)
  with res cmd_repeat_keeps [OF exec] show ?thesis
    by (simp add: call_func_def)
next
  case (Cmd_delay ms)
  with res keeps_cmd_delay [of st e ms] show ?thesis
    by (auto simp: call_func_def)
qed (use res in \<open>auto simp: call_func_def state_of_def keeps_def\<close>)

lemma execute_keeps: "execute e d st a = Some r \<Longrightarrow> keeps st (state_of r)"
proof (induction d arbitrary: st a r)
  case 0
  then show ?case by simp
next
  case (Suc d)
  from Suc.prems have a: "a < length (heap st)"
    by (simp split: if_splits)
  define r0 where "r0 = (if \<not> skip_delay (heap st ! a)
               then cmd_delay e (default_delay st (heap st ! a)) st else Inr st)"
  have k0: "keeps st (state_of r0)"
    using keeps_cmd_delay keeps_refl by (simp add: r0_def state_of_def)
  show ?case
  proof (cases r0)
    case (Inl x)
    with Suc.prems a have "r = r0"
      by (simp add: r0_def split: if_splits)
    with k0 show ?thesis by simp
  next
    case (Inr st1)
    with Suc.prems a have "call_func e (execute e d) st1 (python_func (heap st ! a)) = Some r"
      by (simp add: r0_def split: if_splits)
    from call_func_keeps [OF Suc.IH this] k0 Inr show ?thesis
      using keeps_trans by (auto simp: state_of_def)
  qed
qed








lemma repeat_loop_total:
  assumes inv: "I st"
    and some: "\<And>s. I s \<Longrightarrow> body s \<noteq> None"
    and pres: "\<And>s s'. I s \<Longrightarrow> body s = Some (Inr s') \<Longrightarrow> I s'"
  shows "repeat_loop k body st \<noteq> None"
  using inv
proof (induction k arbitrary: st)
  case 0
  then show ?case by simp
next
  case (Suc k)
  from some [OF Suc.prems] obtain r where r: "body st = Some r"
    by blast
  show ?case
  proof (cases r)
    case (Inl x)
    with r show ?thesis by simp
  next
    case (Inr s')
    with r pres [OF Suc.prems] have "I s'" by simp
    from Suc.IH [OF this] r Inr show ?thesis by simp
  qed
qed


text \<open>On a well-formed heap \<open>execute\<close> gives a result as soon as the bound on the
  nesting exceeds the address of the command.\<close>

lemma execute_returns:
  "wf_heap (heap st) \<Longrightarrow> a < length (heap st) \<Longrightarrow> a < d \<Longrightarrow> execute e d st a \<noteq> None"
proof (induction d arbitrary: st a)
  case 0
  then show ?case by simp
next
  case (Suc d)
  define r0 where "r0 = (if \<not> skip_delay (heap st ! a)
               then cmd_delay e (default_delay st (heap st ! a)) st else Inr st)"
  have h0: "heap (state_of r0) = heap st"
    by (simp add: r0_def state_of_def cmd_delay_def)
  show ?case
  proof (cases r0)
    case (Inl x)
    with Suc.prems(2) show ?thesis
      by (simp add: r0_def)
  next
    case (Inr st1)
    with h0 have h1: "heap st1 = heap st"
      by (simp add: state_of_def)
    have "call_func e (execute e d) st1 (python_func (heap st ! a)) \<noteq> None"
    proof (cases "python_func (heap st ! a)")
      case (Cmd_repeat dcmd n)
      show ?thesis
      proof (cases dcmd)
        case RemFunction
        with Cmd_repeat show ?thesis
          by (simp add: call_func_def cmd_repeat_function)
      next
        case (Cmd t)
        with Cmd_repeat Suc.prems have t: "t < a"
          using wf_heap_repeat by blast
        let ?I = "\<lambda>s. wf_heap (heap s) \<and> t < length (heap s)"
        have "keeps st1 (set_skip_delay (Cmd t) True st1)"
          by (rule keeps_set_skip_delay)
        then have "wf_heap (heap (set_skip_delay (Cmd t) True st1))"
          using keeps_wf Suc.prems(1) h1 by metis
        moreover have "length (heap (set_skip_delay (Cmd t) True st1)) = length (heap st)"
          by (simp add: set_skip_delay_def h1)
        ultimately have i0: "?I (set_skip_delay (Cmd t) True st1)"
          using Suc.prems(2) t by simp
        have some: "\<And>s. ?I s \<Longrightarrow> target_execute (execute e d) (Cmd t) s \<noteq> None"
          using Suc.IH t Suc.prems(3) by (simp add: target_execute_def)
        have pres: "\<And>s s'. ?I s \<Longrightarrow> target_execute (execute e d) (Cmd t) s = Some (Inr s') \<Longrightarrow> ?I s'"
        proof -
          fix s s' assume i: "?I s" and ex: "target_execute (execute e d) (Cmd t) s = Some (Inr s')"
          then have "keeps s s'"
            using execute_keeps [of e d s t "Inr s'"] by (simp add: target_execute_def state_of_def)
          with i show "?I s'"
            using keeps_wf by (auto simp: keeps_def)
        qed
        have "repeat_loop (nat n) (target_execute (execute e d) (Cmd t)) (set_skip_delay (Cmd t) True st1) \<noteq> None"
          using i0 some pres by (rule repeat_loop_total [where I = ?I])
        with Cmd Cmd_repeat show ?thesis
          by (auto simp: call_func_def cmd_repeat_def split: option.splits sum.splits)
      qed
    qed (simp_all add: call_func_def)
    with Inr Suc.prems(2) show ?thesis
      by (simp add: r0_def split: if_splits)
  qed
qed

subsection \<open>Execution: \<open>REPEAT\<close> and the default delay\<close>

lemma execute_skipping:
  "a < length (heap st) \<Longrightarrow> skip_delay (heap st ! a) \<Longrightarrow>
   execute e (Suc d) st a = call_func e (execute e d) st (python_func (heap st ! a))"
  by simp


lemma cmd_repeat_resets:
  assumes exec: "\<And>x a r. exec x a = Some r \<Longrightarrow> keeps x (state_of r)"
    and res: "cmd_repeat exec (Cmd s) n st = Some (Inr st')"
    and s: "s < length (heap st)"
  shows "\<not> skip_delay (heap st' ! s)"
proof -
  from res obtain st2 where
    loop: "repeat_loop (nat n) (target_execute exec (Cmd s)) (set_skip_delay (Cmd s) True st) = Some (Inr st2)"
    and st': "st' = set_skip_delay (Cmd s) False st2"
    by (auto simp: cmd_repeat_def split: option.splits sum.splits)
  have body: "\<And>x r. target_execute exec (Cmd s) x = Some r \<Longrightarrow> keeps x (state_of r)"
    using exec by (simp add: target_execute_def)
  have "keeps (set_skip_delay (Cmd s) True st) (state_of (Inr st2))"
    using keeps_refl keeps_trans body loop by (rule repeat_loop_rel)
  then have "length (heap st2) = length (heap st)"
    by (simp add: keeps_def state_of_def set_skip_delay_def)
  with s st' show ?thesis
    by (simp add: set_skip_delay_def)
qed










text \<open>
  Claim C6. On a well-formed heap and with a bound on the nesting above the address,
  executing a command whose \<open>_skip_delay\<close> is \<open>False\<close> gives a result, and it
  starts with \<open>time.sleep\<close> of the script's default delay as it is at this moment when
  the command was made with a script, and of the command's own \<open>_default_delay\<close>
  otherwise: out of the range of the host the call raises \<open>OverflowError\<close>, below
  zero \<open>ValueError\<close>, and otherwise the sleep is the first event added and the
  function of the command is called in the state after it. Which of the two delays it
  is, and the command's own delay, are fixed by the constructor and changed by no
  execution.
\<close>

theorem default_delay_binding:
  assumes wf: "wf_heap (heap st)" and a: "a < length (heap st)"
    and ns: "\<not> skip_delay (heap st ! a)" and d: "a < d"
  shows "\<exists>r. execute e d st a = Some r \<and>
          (let dd = (if has_script (heap st ! a) then script_default_delay st
                     else cmd_default_delay (heap st ! a)) in
           if dd < - sleep_limit e \<or> sleep_limit e < dd then r = Inl (OverflowError, st)
           else if dd < 0 then r = Inl (ValueError, st)
           else call_func e (execute e (d - 1)) (st\<lparr>events := events st @ [Slept dd]\<rparr>)
                  (python_func (heap st ! a)) = Some r \<and>
                (\<exists>evs. events (state_of r) = events st @ Slept dd # evs)) \<and>
          length (heap (state_of r)) = length (heap st) \<and>
          (\<forall>i < length (heap st).
             has_script (heap (state_of r) ! i) = has_script (heap st ! i) \<and>
             cmd_default_delay (heap (state_of r) ! i) = cmd_default_delay (heap st ! i)) \<and>
          (\<forall>e' l ln dd script c. DuckyCommand_init e' l ln dd script = Inr c \<longrightarrow>
             has_script c = (script \<noteq> None) \<and> cmd_default_delay c = dd)"
proof -
  define dd where "dd = (if has_script (heap st ! a) then script_default_delay st
              else cmd_default_delay (heap st ! a))"
  from execute_returns [OF wf a d] obtain r where ex: "execute e d st a = Some r"
    by blast
  from d obtain d' where d': "d = Suc d'"
    by (cases d) simp_all
  have first: "if dd < - sleep_limit e \<or> sleep_limit e < dd then r = Inl (OverflowError, st)
           else if dd < 0 then r = Inl (ValueError, st)
           else call_func e (execute e (d - 1)) (st\<lparr>events := events st @ [Slept dd]\<rparr>)
                  (python_func (heap st ! a)) = Some r \<and>
                (\<exists>evs. events (state_of r) = events st @ Slept dd # evs)"
  proof (cases "dd < - sleep_limit e \<or> sleep_limit e < dd")
    case True
    with ex a ns show ?thesis
      by (simp add: d' default_delay_def dd_def cmd_delay_def)
  next
    case range: False
    show ?thesis
    proof (cases "dd < 0")
      case True
      with range ex a ns show ?thesis
        by (simp add: d' default_delay_def dd_def cmd_delay_def)
    next
      case False
      define st1 where "st1 = st\<lparr>events := events st @ [Slept dd]\<rparr>"
      from False range ex a ns
      have call: "call_func e (execute e d') st1 (python_func (heap st ! a)) = Some r"
        by (simp add: d' default_delay_def dd_def cmd_delay_def st1_def)
      then have "keeps st1 (state_of r)"
        using call_func_keeps execute_keeps by blast
      then obtain evs where "events (state_of r) = events st1 @ evs"
        by (auto simp: keeps_def)
      with False range call show ?thesis
        by (simp add: st1_def d')
    qed
  qed
  have k: "keeps st (state_of r)"
    using ex by (rule execute_keeps)
  then have len: "length (heap (state_of r)) = length (heap st)"
    by (simp add: keeps_def)
  have same: "has_script (heap (state_of r) ! i) = has_script (heap st ! i) \<and>
      cmd_default_delay (heap (state_of r) ! i) = cmd_default_delay (heap st ! i)"
    if "i < length (heap st)" for i
  proof -
    from k that have eq: "heap (state_of r) ! i =
        (heap st ! i)\<lparr>skip_delay := skip_delay (heap (state_of r) ! i)\<rparr>"
      by (simp add: keeps_def)
    show ?thesis
      by (subst eq, subst (2) eq) simp
  qed
  have init: "\<forall>e' l ln dd script c. DuckyCommand_init e' l ln dd script = Inr c \<longrightarrow>
             has_script c = (script \<noteq> None) \<and> cmd_default_delay c = dd"
    using init_fields by blast
  from ex first len same init show ?thesis
    unfolding Let_def dd_def by blast
qed

theorem default_delay_binding_witness:
  "wf_heap (heap example_delayed) \<and> 1 < length (heap example_delayed) \<and>
   \<not> skip_delay (heap example_delayed ! 1) \<and>
   (\<exists>r. execute example_env 2 example_delayed 1 = Some r \<and>
        call_func example_env (execute example_env (2 - 1))
          (example_delayed\<lparr>events := events example_delayed @ [Slept 100]\<rparr>)
          (python_func (heap example_delayed ! 1)) = Some r \<and>
        (\<exists>evs. events (state_of r) = events example_delayed @ Slept 100 # evs)) \<and>
   execute example_env 2 example_delayed 1 =
     Some (Inr (example_delayed\<lparr>events := [Slept 100, Typed ''a'']\<rparr>))"
proof -
  have h1: "wf_heap (heap example_delayed)"
    by code_simp
  have h2: "1 < length (heap example_delayed)"
    by code_simp
  have h3: "\<not> skip_delay (heap example_delayed ! 1)"
    by code_simp
  have h4: "(1::nat) < 2"
    by simp
  have dd: "(if has_script (heap example_delayed ! 1) then script_default_delay example_delayed
             else cmd_default_delay (heap example_delayed ! 1)) = 100"
    by code_simp
  have lim: "sleep_limit example_env = 9223372036854"
    by code_simp
  have ev: "execute example_env 2 example_delayed 1 =
     Some (Inr (example_delayed\<lparr>events := [Slept 100, Typed ''a'']\<rparr>))"
    by code_simp
  from default_delay_binding [OF h1 h2 h3 h4, of example_env]
  have "\<exists>r. execute example_env 2 example_delayed 1 = Some r \<and>
        call_func example_env (execute example_env (2 - 1))
          (example_delayed\<lparr>events := events example_delayed @ [Slept 100]\<rparr>)
          (python_func (heap example_delayed ! 1)) = Some r \<and>
        (\<exists>evs. events (state_of r) = events example_delayed @ Slept 100 # evs)"
    unfolding Let_def dd lim by auto
  with h1 h2 h3 ev show ?thesis
    by blast
qed

lemma cmd_repeat_gives_result:
  assumes wf: "wf_heap (heap st)" and obj: "is_object st dcmd"
    and d: "case dcmd of RemFunction \<Rightarrow> True | Cmd s \<Rightarrow> s < d"
  shows "cmd_repeat (execute e d) dcmd n st \<noteq> None"
proof (cases dcmd)
  case RemFunction
  then show ?thesis
    by (simp add: cmd_repeat_function)
next
  case (Cmd s)
  with obj d have s: "s < length (heap st)" "s < d"
    by (simp_all add: is_object_def)
  let ?I = "\<lambda>x. wf_heap (heap x) \<and> s < length (heap x)"
  have "keeps st (set_skip_delay (Cmd s) True st)"
    by (rule keeps_set_skip_delay)
  then have "wf_heap (heap (set_skip_delay (Cmd s) True st))"
    using keeps_wf wf by blast
  moreover have "length (heap (set_skip_delay (Cmd s) True st)) = length (heap st)"
    by (simp add: set_skip_delay_def)
  ultimately have i0: "?I (set_skip_delay (Cmd s) True st)"
    using s by simp
  have some: "\<And>x. ?I x \<Longrightarrow> target_execute (execute e d) (Cmd s) x \<noteq> None"
    using execute_returns s(2) by (simp add: target_execute_def)
  have pres: "\<And>x x'. ?I x \<Longrightarrow> target_execute (execute e d) (Cmd s) x = Some (Inr x') \<Longrightarrow> ?I x'"
  proof -
    fix x x' assume i: "?I x" and ex: "target_execute (execute e d) (Cmd s) x = Some (Inr x')"
    then have "keeps x x'"
      using execute_keeps [of e d x s "Inr x'"] by (simp add: target_execute_def state_of_def)
    with i show "?I x'"
      using keeps_wf by (auto simp: keeps_def)
  qed
  have "repeat_loop (nat n) (target_execute (execute e d) (Cmd s)) (set_skip_delay (Cmd s) True st) \<noteq> None"
    using i0 some pres by (rule repeat_loop_total [where I = ?I])
  with Cmd show ?thesis
    by (auto simp: cmd_repeat_def split: option.splits sum.splits)
qed

text \<open>
  Claim C10. \<open>_cmd_repeat\<close> on an object of the state gives a result when the heap is
  well formed and the bound on the nesting exceeds the address of the object. When it
  returns, \<open>_skip_delay\<close> of the object it repeated is \<open>False\<close>, whatever it was
  before. If that object is a comment command, executing it in the state reached calls
  \<open>time.sleep\<close> with the default delay: unless that call raises, the execution returns
  with this one sleep added to the events.
\<close>

theorem repeat_leaves_flag_false:
  assumes obj: "is_object st dcmd"
  shows "(wf_heap (heap st) \<and> (case dcmd of RemFunction \<Rightarrow> True | Cmd s \<Rightarrow> s < d) \<longrightarrow>
            cmd_repeat (execute e d) dcmd n st \<noteq> None) \<and>
         (\<forall>st'. cmd_repeat (execute e d) dcmd n st = Some (Inr st') \<longrightarrow>
           (case dcmd of
              RemFunction \<Rightarrow> rem_skip_delay st' = Some False
            | Cmd s \<Rightarrow>
                \<not> skip_delay (heap st' ! s) \<and>
                (\<forall>comment d'. python_func (heap st ! s) = Cmd_rem comment \<longrightarrow>
                   execute e (Suc d') st' s =
                     Some (let dd = (if has_script (heap st' ! s) then script_default_delay st'
                                     else cmd_default_delay (heap st' ! s)) in
                           if dd < - sleep_limit e \<or> sleep_limit e < dd
                           then Inl (OverflowError, st')
                           else if dd < 0 then Inl (ValueError, st')
                           else Inr (st'\<lparr>events := events st' @ [Slept dd]\<rparr>)))))"
proof (intro conjI allI impI)
  assume "wf_heap (heap st) \<and> (case dcmd of RemFunction \<Rightarrow> True | Cmd s \<Rightarrow> s < d)"
  with obj show "cmd_repeat (execute e d) dcmd n st \<noteq> None"
    using cmd_repeat_gives_result by blast
next
  fix st'
  assume res: "cmd_repeat (execute e d) dcmd n st = Some (Inr st')"
  show "case dcmd of
              RemFunction \<Rightarrow> rem_skip_delay st' = Some False
            | Cmd s \<Rightarrow>
                \<not> skip_delay (heap st' ! s) \<and>
                (\<forall>comment d'. python_func (heap st ! s) = Cmd_rem comment \<longrightarrow>
                   execute e (Suc d') st' s =
                     Some (let dd = (if has_script (heap st' ! s) then script_default_delay st'
                                     else cmd_default_delay (heap st' ! s)) in
                           if dd < - sleep_limit e \<or> sleep_limit e < dd
                           then Inl (OverflowError, st')
                           else if dd < 0 then Inl (ValueError, st')
                           else Inr (st'\<lparr>events := events st' @ [Slept dd]\<rparr>)))"
  proof (cases dcmd)
    case RemFunction
    with res show ?thesis
      by (auto simp: cmd_repeat_function split: if_splits)
  next
    case (Cmd s)
    with obj have s: "s < length (heap st)"
      by (simp add: is_object_def)
    from res Cmd have flag: "\<not> skip_delay (heap st' ! s)"
      using cmd_repeat_resets [of "execute e d" s n st st'] execute_keeps s by blast
    have k: "keeps st st'"
      using cmd_repeat_keeps [of "execute e d" dcmd n st "Inr st'"] execute_keeps res
      by (simp add: state_of_def)
    then have len: "length (heap st') = length (heap st)"
      by (simp add: keeps_def)
    have "execute e (Suc d') st' s =
                     Some (let dd = (if has_script (heap st' ! s) then script_default_delay st'
                                     else cmd_default_delay (heap st' ! s)) in
                           if dd < - sleep_limit e \<or> sleep_limit e < dd
                           then Inl (OverflowError, st')
                           else if dd < 0 then Inl (ValueError, st')
                           else Inr (st'\<lparr>events := events st' @ [Slept dd]\<rparr>))"
      if "python_func (heap st ! s) = Cmd_rem comment" for comment d'
    proof -
      from that keeps_python_func [OF k s] have "python_func (heap st' ! s) = Cmd_rem comment"
        by simp
      with flag s len show ?thesis
        by (simp add: call_func_def cmd_delay_def default_delay_def Let_def)
    qed
    with flag Cmd show ?thesis
      by simp
  qed
qed

theorem repeat_leaves_flag_false_witness:
  "is_object example_loaded (Cmd 3) \<and> wf_heap (heap example_loaded) \<and>
   cmd_repeat (execute example_env 4) (Cmd 3) 2 example_loaded \<noteq> None \<and>
   cmd_repeat (execute example_env 4) (Cmd 3) 2 example_loaded =
     Some (Inr (set_skip_delay (Cmd 3) False example_loaded)) \<and>
   python_func (heap example_loaded ! 3) = Cmd_rem ''hi'' \<and>
   skip_delay (heap example_loaded ! 3) \<and>
   \<not> skip_delay (heap (set_skip_delay (Cmd 3) False example_loaded) ! 3) \<and>
   execute example_env (Suc 0) (set_skip_delay (Cmd 3) False example_loaded) 3 =
     Some (Inr ((set_skip_delay (Cmd 3) False example_loaded)
                 \<lparr>events := events (set_skip_delay (Cmd 3) False example_loaded) @ [Slept 0]\<rparr>))"
proof -
  have h1: "cmd_repeat (execute example_env 4) (Cmd 3) 2 example_loaded =
     Some (Inr (set_skip_delay (Cmd 3) False example_loaded))"
    by code_simp
  have h2: "is_object example_loaded (Cmd 3)"
    by code_simp
  have h3: "python_func (heap example_loaded ! 3) = Cmd_rem ''hi''"
    by code_simp
  have h4: "skip_delay (heap example_loaded ! 3)"
    by code_simp
  have h5: "wf_heap (heap example_loaded)"
    by code_simp
  have h6: "case Cmd 3 of RemFunction \<Rightarrow> True | Cmd s \<Rightarrow> s < (4::nat)"
    by simp
  have dd: "(if has_script (heap (set_skip_delay (Cmd 3) False example_loaded) ! 3)
             then script_default_delay (set_skip_delay (Cmd 3) False example_loaded)
             else cmd_default_delay (heap (set_skip_delay (Cmd 3) False example_loaded) ! 3)) = 0"
    by code_simp
  have lim: "sleep_limit example_env = 9223372036854"
    by code_simp
  note t = repeat_leaves_flag_false [OF h2, of 4 example_env 2]
  from t h5 h6 have nn: "cmd_repeat (execute example_env 4) (Cmd 3) 2 example_loaded \<noteq> None"
    by blast
  note t2 = t [THEN conjunct2, rule_format, OF h1, unfolded target.case]
  from t2 have flag: "\<not> skip_delay (heap (set_skip_delay (Cmd 3) False example_loaded) ! 3)"
    by (rule conjunct1)
  from t2 h3 have ex: "execute example_env (Suc 0) (set_skip_delay (Cmd 3) False example_loaded) 3 =
      Some (let dd = (if has_script (heap (set_skip_delay (Cmd 3) False example_loaded) ! 3)
                      then script_default_delay (set_skip_delay (Cmd 3) False example_loaded)
                      else cmd_default_delay (heap (set_skip_delay (Cmd 3) False example_loaded) ! 3)) in
            if dd < - sleep_limit example_env \<or> sleep_limit example_env < dd
            then Inl (OverflowError, set_skip_delay (Cmd 3) False example_loaded)
            else if dd < 0 then Inl (ValueError, set_skip_delay (Cmd 3) False example_loaded)
            else Inr ((set_skip_delay (Cmd 3) False example_loaded)
                 \<lparr>events := events (set_skip_delay (Cmd 3) False example_loaded) @ [Slept dd]\<rparr>))"
    by blast
  have val: "(let dd = (if has_script (heap (set_skip_delay (Cmd 3) False example_loaded) ! 3)
                      then script_default_delay (set_skip_delay (Cmd 3) False example_loaded)
                      else cmd_default_delay (heap (set_skip_delay (Cmd 3) False example_loaded) ! 3)) in
            if dd < - sleep_limit example_env \<or> sleep_limit example_env < dd
            then Inl (OverflowError, set_skip_delay (Cmd 3) False example_loaded)
            else if dd < 0 then Inl (ValueError, set_skip_delay (Cmd 3) False example_loaded)
            else Inr ((set_skip_delay (Cmd 3) False example_loaded)
                 \<lparr>events := events (set_skip_delay (Cmd 3) False example_loaded) @ [Slept dd]\<rparr>)) =
        Inr ((set_skip_delay (Cmd 3) False example_loaded)
                 \<lparr>events := events (set_skip_delay (Cmd 3) False example_loaded) @ [Slept 0]\<rparr>)"
    unfolding Let_def dd lim by simp
  from ex have "execute example_env (Suc 0) (set_skip_delay (Cmd 3) False example_loaded) 3 =
     Some (Inr ((set_skip_delay (Cmd 3) False example_loaded)
                 \<lparr>events := events (set_skip_delay (Cmd 3) False example_loaded) @ [Slept 0]\<rparr>))"
    unfolding val .
  with h1 h2 h3 h4 h5 nn flag show ?thesis
    by blast
qed

subsection \<open>The states a script reaches are well formed\<close>

text \<open>Running the example script: the comment at line 3 does not sleep, and after the
  \<open>REPEAT\<close> of line 4 its \<open>_skip_delay\<close> is \<open>False\<close>.\<close>

lemma example_run:
  "run example_env example_script 2 DuckyScript_init =
     Some (Inr ((set_skip_delay (Cmd 3) False example_loaded)
       \<lparr>script_default_delay := 100,
        events := [Slept 0, Slept 100, Typed ''a'', Slept 100, Typed ''a'', Typed ''a'',
                   Typed ''a'', Slept 100]\<rparr>))"
  by code_simp

lemma wf_heap_append: "wf_heap (h @ [c]) = (wf_heap h \<and> repeats_earlier (length h) c)"
proof -
  have "(\<forall>a < Suc (length h). repeats_earlier a ((h @ [c]) ! a)) =
        ((\<forall>a < length h. repeats_earlier a (h ! a)) \<and> repeats_earlier (length h) c)"
    by (auto simp: nth_append less_Suc_eq)
  then show ?thesis
    by (simp add: wf_heap_iff)
qed

lemma py_item_mem: "py_item xs i = Inr x \<Longrightarrow> x \<in> set xs"
  by (auto simp: py_item_def split: if_splits)

lemma to_repeat_mem: "to_repeat cmds ln = Inr (Cmd t) \<Longrightarrow> t \<in> set cmds"
  by (auto simp: to_repeat_def split: sum.splits if_splits dest: py_item_mem)

lemma to_python_target:
  "to_python e (Some cmds) ln l = Inr (skip, Cmd_repeat (Cmd t) n) \<Longrightarrow> t \<in> set cmds"
  by (auto simp: to_python_def Let_def split: sum.splits if_splits option.splits
      dest: to_repeat_mem)

lemma init_repeats_earlier:
  assumes "DuckyCommand_init e l ln dd (Some cmds) = Inr c"
    and "list_all (\<lambda>a. a < k) cmds"
  shows "repeats_earlier k c"
proof -
  from assms(1) obtain skip f where
    f: "to_python e (Some cmds) ln l = Inr (skip, f)" and c: "python_func c = f"
    by (auto simp: DuckyCommand_init_def split: sum.splits)
  show ?thesis
  proof (cases f)
    case (Cmd_repeat dcmd n)
    show ?thesis
    proof (cases dcmd)
      case RemFunction
      with Cmd_repeat c show ?thesis
        by (simp add: repeats_earlier_def)
    next
      case (Cmd t)
      with Cmd_repeat f have "t \<in> set cmds"
        using to_python_target by blast
      with assms(2) have "t < k"
        by (simp add: list_all_iff)
      with Cmd Cmd_repeat c show ?thesis
        by (simp add: repeats_earlier_def)
    qed
  qed (use c in \<open>simp_all add: repeats_earlier_def\<close>)
qed

lemma wf_state_init: "wf_state DuckyScript_init"
  by (simp add: wf_state_def DuckyScript_init_def wf_heap_def commands_of_def)

lemma wf_state_grows_one:
  assumes wf: "wf_state st" and g: "grows st [c] st2" and c: "repeats_earlier (length (heap st)) c"
  shows "wf_state st2"
proof -
  from g have h: "heap st2 = heap st @ [c]"
    and co: "commands_of st2 = commands_of st @ [length (heap st)]"
    and i: "iface_commands st2 = iface_commands st @ [length (heap st)] \<or>
            iface_commands st2 = iface_commands st"
    by (auto simp: grows_def)
  have less: "\<And>xs. list_all (\<lambda>a. a < length (heap st)) xs \<Longrightarrow>
                   list_all (\<lambda>a. a < Suc (length (heap st))) xs"
    by (simp add: list_all_iff less_Suc_eq)
  from wf c have "wf_heap (heap st2)"
    by (simp add: h wf_heap_append wf_state_def)
  moreover from wf i have "list_all (\<lambda>a. a < length (heap st2)) (iface_commands st2)"
    using less by (auto simp: h wf_state_def)
  moreover from wf have "list_all (\<lambda>a. a < length (heap st2)) (commands_of st2)"
    using less by (simp add: h co wf_state_def)
  ultimately show ?thesis
    by (simp add: wf_state_def)
qed

lemma wf_state_load_lines:
  "wf_state st \<Longrightarrow> \<not> is_tuple (commands st) \<Longrightarrow> wf_state (state_of (load_lines e n ls st))"
proof (induction ls arbitrary: n st)
  case Nil
  then show ?case by (simp add: state_of_def)
next
  case (Cons l ls)
  show ?case
  proof (cases "strip l = []")
    case True
    with Cons show ?thesis by simp
  next
    case False
    show ?thesis
    proof (cases "DuckyCommand_init e (strip l) (int n) 0 (Some (iface_commands st))")
      case (Inl err)
      with False Cons.prems(1) show ?thesis
        by (simp add: state_of_def)
    next
      case (Inr c)
      from append_command_grows [OF Cons.prems(2), of c] obtain st2 where
        st2: "append_command (length (heap st)) (st\<lparr>heap := heap st @ [c]\<rparr>) = Inr st2"
        and g: "grows st [c] st2"
        by blast
      from Inr Cons.prems(1) have "repeats_earlier (length (heap st)) c"
        using init_repeats_earlier by (simp add: wf_state_def)
      with Cons.prems(1) g have "wf_state st2"
        by (rule wf_state_grows_one)
      moreover from g have "\<not> is_tuple (commands st2)"
        by (simp add: grows_def)
      ultimately have "wf_state (state_of (load_lines e (Suc n) ls st2))"
        by (rule Cons.IH)
      moreover have "load_lines e n (l # ls) st = load_lines e (Suc n) ls st2"
        using False Inr st2 by simp
      ultimately show ?thesis
        by simp
    qed
  qed
qed

lemma wf_state_load: "wf_state st \<Longrightarrow> wf_state (state_of (load e dfile st))"
proof -
  assume wf: "wf_state st"
  define st0 where "st0 = (if is_tuple (commands st) then st\<lparr>commands := FreshList []\<rparr> else st)"
  have nt: "\<not> is_tuple (commands st0)"
    by (simp add: st0_def is_tuple_def)
  from wf have "wf_state st0"
    by (simp add: st0_def wf_state_def commands_of_def)
  then have w1: "wf_state (state_of (load_lines e 0 dfile st0))"
    using nt by (rule wf_state_load_lines)
  show ?thesis
  proof (cases "load_lines e 0 dfile st0")
    case (Inl x)
    with w1 show ?thesis
      by (simp add: load_def st0_def [symmetric] state_of_def)
  next
    case (Inr st1)
    with w1 have "wf_state (st1\<lparr>commands := TupleOf (commands_of st1)\<rparr>)"
      by (simp add: state_of_def wf_state_def commands_of_def)
    with Inr show ?thesis
      by (simp add: load_def st0_def [symmetric] state_of_def)
  qed
qed

lemma wf_state_execute:
  assumes "wf_state st" and "execute e d st a = Some r"
  shows "wf_state (state_of r)"
proof -
  from assms(2) have k: "keeps st (state_of r)"
    by (rule execute_keeps)
  then have "commands_of (state_of r) = commands_of st"
    "iface_commands (state_of r) = iface_commands st"
    "length (heap (state_of r)) = length (heap st)"
    by (simp_all add: keeps_def commands_of_def cong: commands_val.case_cong)
  with assms(1) keeps_wf [OF k] show ?thesis
    by (simp add: wf_state_def)
qed

lemma reachable_wf: "reachable st \<Longrightarrow> wf_state st"
  by (induction rule: reachable.induct) (auto intro: wf_state_init wf_state_load wf_state_execute)

lemma run_commands_reachable:
  "reachable st \<Longrightarrow> run_commands e d as st = Some r \<Longrightarrow> reachable (state_of r)"
proof (induction as arbitrary: st)
  case Nil
  then show ?case by (auto simp: state_of_def)
next
  case (Cons a as)
  from Cons.prems(2) obtain r1 where r1: "execute e d st a = Some r1"
    by (auto split: option.splits)
  from Cons.prems(1) r1 have reach: "reachable (state_of r1)"
    by (rule reachable.exec)
  show ?case
  proof (cases r1)
    case (Inl x)
    with Cons.prems(2) r1 reach show ?thesis by auto
  next
    case (Inr st1)
    with Cons.prems(2) r1 have "run_commands e d as st1 = Some r" by simp
    moreover from reach Inr have "reachable st1" by (simp add: state_of_def)
    ultimately show ?thesis by (rule Cons.IH [rotated])
  qed
qed

lemma run_reachable:
  assumes "reachable st" and "run e dfile d st = Some r"
  shows "reachable (state_of r)"
proof (cases "is_tuple (commands st)")
  case True
  with assms show ?thesis
    using run_commands_reachable by (auto simp: run_def)
next
  case False
  from assms(1) have l: "reachable (state_of (load e dfile st))"
    by (rule reachable.load)
  show ?thesis
  proof (cases "load e dfile st")
    case (Inl x)
    with False assms(2) l show ?thesis
      by (auto simp: run_def)
  next
    case (Inr st1)
    with l have "reachable st1" by (simp add: state_of_def)
    moreover from Inr False assms(2) have "run_commands e d (commands_of st1) st1 = Some r"
      by (simp add: run_def)
    ultimately show ?thesis by (rule run_commands_reachable)
  qed
qed

end
